(* ===== verification/Prelude.thy ===== *)
theory Prelude
  imports Main "HOL-Library.Word"
begin

text \<open>
  Shared vocabulary of the development: the theorem collections the component
  theories extend, the bytes and strings of the program, Go's 64-bit integers
  with their wrap-around, and the generic list lemmas several components use.

  A Go \<open>string\<close> (and a \<open>[]byte\<close>) is a sequence of bytes; it is an Isabelle
  \<^typ>\<open>string\<close>, whose characters are bytes. A fallible Go call
  \<open>(value, error)\<close> is a sum, \<^term>\<open>Inl e\<close> for the error return and
  \<^term>\<open>Inr v\<close> for the value.
\<close>

subsection \<open>Theorem collections\<close>

named_theorems go_defs \<open>unfolding rules of the standard-library layer\<close>
named_theorems table_defs \<open>the constant tables of the program (vocabulary, tokens)\<close>
named_theorems guard_defs \<open>definitions of the guards a decision is made of\<close>

subsection \<open>Results\<close>

type_synonym ('e, 'a) result = "'e + 'a"

definition is_ok :: "'e + 'a \<Rightarrow> bool" where
  "is_ok r \<longleftrightarrow> (case r of Inl _ \<Rightarrow> False | Inr _ \<Rightarrow> True)"

lemma is_ok_simps [simp]: "is_ok (Inr v)" "\<not> is_ok (Inl e)"
  by (simp_all add: is_ok_def)

lemma is_ok_iff: "is_ok r \<longleftrightarrow> (\<exists>v. r = Inr v)"
  by (cases r) auto

text \<open>Sequencing: a Go \<open>if err != nil { return err }\<close> between two calls.\<close>

definition bind_result :: "'e + 'a \<Rightarrow> ('a \<Rightarrow> 'e + 'b) \<Rightarrow> 'e + 'b" where
  "bind_result r f = (case r of Inl e \<Rightarrow> Inl e | Inr v \<Rightarrow> f v)"

lemma bind_result_simps [simp]:
  "bind_result (Inl e) f = Inl e" "bind_result (Inr v) f = f v"
  by (simp_all add: bind_result_def)

lemma bind_result_Inr_iff:
  "bind_result r f = Inr w \<longleftrightarrow> (\<exists>v. r = Inr v \<and> f v = Inr w)"
  by (cases r) auto

lemma bind_result_Inl_iff:
  "bind_result r f = Inl e \<longleftrightarrow> r = Inl e \<or> (\<exists>v. r = Inr v \<and> f v = Inl e)"
  by (cases r) auto

subsection \<open>Go's int64\<close>

text \<open>
  \<open>int\<close>, \<open>int64\<close> and \<open>time.Duration\<close> are 64-bit two's complement on the
  platforms the program is built for. A value is kept as an \<^typ>\<open>int\<close> and an
  operation that can leave the range is followed by \<open>int64\<close>.
\<close>

definition int64 :: "int \<Rightarrow> int" where
  "int64 i = signed_take_bit 63 i"

definition int64_min :: int where "int64_min = - (2 ^ 63)"
definition int64_max :: int where "int64_max = 2 ^ 63 - 1"

definition in_int64 :: "int \<Rightarrow> bool" where
  "in_int64 i \<longleftrightarrow> int64_min \<le> i \<and> i \<le> int64_max"

lemma int64_id: "in_int64 i \<Longrightarrow> int64 i = i"
  by (simp add: int64_def in_int64_def int64_min_def int64_max_def
      signed_take_bit_int_eq_self_iff)

lemma in_int64_int64 [simp]: "in_int64 (int64 i)"
  unfolding int64_def in_int64_def int64_min_def int64_max_def
  using signed_take_bit_int_greater_eq_minus_exp [of 63 i]
    signed_take_bit_int_less_exp [of 63 i]
  by linarith

lemma int64_range: "int64_min \<le> int64 i" "int64 i \<le> int64_max"
  using in_int64_int64 [of i] by (simp_all add: in_int64_def)

lemma int64_wraps: "int64 (2 ^ 63) = - (2 ^ 63)"
  by (simp add: int64_def signed_take_bit_eq_if_negative bit_exp_iff)

subsection \<open>Lists\<close>

lemma take_prefix_append: "take n xs = ys \<Longrightarrow> xs = ys @ drop n xs"
  by (metis append_take_drop_id)

lemma append_drop_eq: "xs = ys @ zs \<Longrightarrow> drop (length ys) xs = zs"
  by simp

lemma concat_snoc: "concat (xss @ [ys]) = concat xss @ ys"
  by simp

lemma last_append_singleton: "xs \<noteq> [] \<Longrightarrow> last xs = c \<Longrightarrow> \<exists>ys. xs = ys @ [c]"
  by (metis append_butlast_last_id)

lemma sum_list_take_le: "sum_list (take n xs) \<le> sum_list (xs :: nat list)"
  by (metis append_take_drop_id le_add1 sum_list_append)

lemma list_all_take: "list_all P xs \<Longrightarrow> list_all P (take n xs)"
  by (metis append_take_drop_id list_all_append)

text \<open>
  Looking a key up in an association list whose later entries win, as repeated
  assignments to a Go map do.
\<close>

definition last_of :: "('k \<times> 'v) list \<Rightarrow> 'k \<Rightarrow> 'v option" where
  "last_of ms k = map_of (rev ms) k"

lemma last_of_simps [simp]:
  "last_of [] k = None"
  "last_of (ms @ [(k', v)]) k = (if k = k' then Some v else last_of ms k)"
  by (simp_all add: last_of_def)

lemma last_of_Some_in: "last_of ms k = Some v \<Longrightarrow> (k, v) \<in> set ms"
  unfolding last_of_def by (metis map_of_SomeD set_rev)

lemma last_of_None_iff: "last_of ms k = None \<longleftrightarrow> k \<notin> fst ` set ms"
  unfolding last_of_def by (simp add: map_of_eq_None_iff)

lemma last_of_distinct: "distinct (map fst ms) \<Longrightarrow> last_of ms k = map_of ms k"
  unfolding last_of_def
  by (metis distinct_rev map_of_eqI map_of_inject_set rev_map set_map set_rev)

end
