(* ===== verification/Go_Strings.thy ===== *)
theory Go_Strings
  imports Prelude
begin

text \<open>
  What the program uses of Go's \<open>strings\<close> and \<open>strconv\<close> packages, on strings
  of bytes, with the laws the component theories need. The names are Go's.
\<close>

subsection \<open>Prefixes and suffixes\<close>

definition HasPrefix :: "string \<Rightarrow> string \<Rightarrow> bool" where
  "HasPrefix s p \<longleftrightarrow> take (length p) s = p"

definition HasSuffix :: "string \<Rightarrow> string \<Rightarrow> bool" where
  "HasSuffix s p \<longleftrightarrow> length p \<le> length s \<and> drop (length s - length p) s = p"

definition TrimPrefix :: "string \<Rightarrow> string \<Rightarrow> string" where
  "TrimPrefix s p = (if HasPrefix s p then drop (length p) s else s)"

definition TrimSuffix :: "string \<Rightarrow> string \<Rightarrow> string" where
  "TrimSuffix s p = (if HasSuffix s p then take (length s - length p) s else s)"

lemma HasPrefix_iff: "HasPrefix s p \<longleftrightarrow> (\<exists>r. s = p @ r)"
  unfolding HasPrefix_def by (metis append_eq_conv_conj append_take_drop_id)

lemma HasSuffix_iff: "HasSuffix s p \<longleftrightarrow> (\<exists>r. s = r @ p)"
proof
  assume "HasSuffix s p"
  then show "\<exists>r. s = r @ p"
    unfolding HasSuffix_def by (metis append_take_drop_id)
next
  assume "\<exists>r. s = r @ p"
  then show "HasSuffix s p" unfolding HasSuffix_def by auto
qed

lemma HasPrefix_append [simp]: "HasPrefix (p @ r) p"
  by (simp add: HasPrefix_def)

lemma HasPrefix_Nil [simp]: "HasPrefix s []"
  by (simp add: HasPrefix_def)

lemma HasPrefix_Cons [simp]: "HasPrefix (c # s) (d # p) \<longleftrightarrow> c = d \<and> HasPrefix s p"
  by (auto simp: HasPrefix_def)

lemma HasPrefix_empty [simp]: "HasPrefix [] p \<longleftrightarrow> p = []"
  by (auto simp: HasPrefix_def)

lemma HasPrefix_drop_less: "HasPrefix s p \<Longrightarrow> p \<noteq> [] \<Longrightarrow> length (drop (length p) s) < length s"
  by (auto simp: HasPrefix_iff)

lemma HasPrefix_trans: "HasPrefix s p \<Longrightarrow> HasPrefix p q \<Longrightarrow> HasPrefix s q"
  by (auto simp: HasPrefix_iff)

lemma HasSuffix_append [simp]: "HasSuffix (r @ p) p"
  by (auto simp: HasSuffix_iff)

lemma TrimSuffix_append [simp]: "TrimSuffix (r @ p) p = r"
  by (simp add: TrimSuffix_def)

lemma TrimPrefix_append [simp]: "TrimPrefix (p @ r) p = r"
  by (simp add: TrimPrefix_def)

lemma HasSuffix_slash: "HasSuffix p ''/'' \<longleftrightarrow> p \<noteq> [] \<and> last p = CHR ''/''"
  by (auto simp: HasSuffix_iff intro: last_append_singleton)

subsection \<open>Searching\<close>

text \<open>\<open>Index\<close>, \<open>IndexByte\<close> and \<open>IndexAny\<close> return -1 when there is no match;
  here that is \<^const>\<open>None\<close>.\<close>

fun IndexAny :: "string \<Rightarrow> string \<Rightarrow> nat option" where
  "IndexAny [] cs = None"
| "IndexAny (c # s) cs = (if c \<in> set cs then Some 0 else map_option Suc (IndexAny s cs))"

definition IndexByte :: "string \<Rightarrow> char \<Rightarrow> nat option" where
  "IndexByte s c = IndexAny s [c]"

fun Index :: "string \<Rightarrow> string \<Rightarrow> nat option" where
  "Index [] sub = (if sub = [] then Some 0 else None)"
| "Index (c # s) sub =
     (if HasPrefix (c # s) sub then Some 0 else map_option Suc (Index s sub))"

definition ContainsAny :: "string \<Rightarrow> string \<Rightarrow> bool" where
  "ContainsAny s cs \<longleftrightarrow> IndexAny s cs \<noteq> None"

definition Contains :: "string \<Rightarrow> string \<Rightarrow> bool" where
  "Contains s sub \<longleftrightarrow> Index s sub \<noteq> None"

lemma IndexAny_None_iff: "IndexAny s cs = None \<longleftrightarrow> set s \<inter> set cs = {}"
  by (induction s) auto

lemma IndexAny_SomeD:
  "IndexAny s cs = Some i \<Longrightarrow> i < length s \<and> s ! i \<in> set cs \<and> set (take i s) \<inter> set cs = {}"
  by (induction s arbitrary: i) (auto split: if_splits)

lemma IndexByte_None_iff: "IndexByte s c = None \<longleftrightarrow> c \<notin> set s"
  by (simp add: IndexByte_def IndexAny_None_iff)

lemma IndexByte_SomeD:
  "IndexByte s c = Some i \<Longrightarrow> i < length s \<and> s ! i = c \<and> c \<notin> set (take i s)"
  using IndexAny_SomeD [of s "[c]" i] by (simp add: IndexByte_def)

lemma ContainsAny_iff: "ContainsAny s cs \<longleftrightarrow> set s \<inter> set cs \<noteq> {}"
  by (simp add: ContainsAny_def IndexAny_None_iff)

lemma Index_SomeD:
  "Index s sub = Some i \<Longrightarrow> HasPrefix (drop i s) sub \<and> (\<forall>j<i. \<not> HasPrefix (drop j s) sub)"
proof (induction s sub arbitrary: i rule: Index.induct)
  case (1 sub)
  then show ?case by (auto split: if_splits)
next
  case (2 c s sub)
  show ?case
  proof (cases "HasPrefix (c # s) sub")
    case True
    with 2 show ?thesis by simp
  next
    case False
    with 2 obtain k where k: "i = Suc k" "Index s sub = Some k" by auto
    from 2(1) [OF False k(2)] k(1) False show ?thesis
      by (auto simp: less_Suc_eq_0_disj)
  qed
qed

lemma Index_None_iff: "Index s sub = None \<longleftrightarrow> (\<forall>j\<le>length s. \<not> HasPrefix (drop j s) sub)"
proof (induction s sub rule: Index.induct)
  case (1 sub)
  then show ?case by (cases sub) auto
next
  case (2 c s sub)
  have "(\<forall>j\<le>length (c # s). \<not> HasPrefix (drop j (c # s)) sub) \<longleftrightarrow>
      \<not> HasPrefix (c # s) sub \<and> (\<forall>j\<le>length s. \<not> HasPrefix (drop j s) sub)"
    by (simp flip: less_Suc_eq_le add: All_less_Suc2)
  with 2 show ?case by auto
qed

lemma Index_None_append: "Index s sub = None \<Longrightarrow> s \<noteq> a @ sub @ b"
proof
  assume none: "Index s sub = None" and s: "s = a @ sub @ b"
  then have "HasPrefix (drop (length a) s) sub" by simp
  moreover from s have "length a \<le> length s" by simp
  ultimately show False using none by (simp add: Index_None_iff)
qed

lemma not_Contains_append: "\<not> Contains s sub \<Longrightarrow> s \<noteq> a @ sub @ b"
  unfolding Contains_def using Index_None_append by blast

lemma Contains_iff: "Contains s sub \<longleftrightarrow> (\<exists>a b. s = a @ sub @ b)"
proof
  assume "Contains s sub"
  then obtain i where "Index s sub = Some i" by (auto simp: Contains_def)
  then have "HasPrefix (drop i s) sub" using Index_SomeD by blast
  then obtain b where "drop i s = sub @ b" by (auto simp: HasPrefix_iff)
  then have "s = take i s @ sub @ b" by (metis append_take_drop_id)
  then show "\<exists>a b. s = a @ sub @ b" by blast
next
  assume "\<exists>a b. s = a @ sub @ b"
  then show "Contains s sub" using not_Contains_append by blast
qed

lemma HasPrefix_take [simp]: "HasPrefix s (take k s)"
  by (metis HasPrefix_append append_take_drop_id)

lemma Contains_appendI: "Contains s sub \<Longrightarrow> Contains (a @ s @ b) sub"
proof -
  assume "Contains s sub"
  then obtain c d where "s = c @ sub @ d" by (auto simp: Contains_iff)
  then have "a @ s @ b = (a @ c) @ sub @ (d @ b)" by simp
  then show "Contains (a @ s @ b) sub" unfolding Contains_iff by blast
qed

lemma Contains_take: "Contains (take k s) sub \<Longrightarrow> Contains s sub"
  using Contains_appendI [of "take k s" sub "[]" "drop k s"] by simp

subsection \<open>Splitting and joining\<close>

text \<open>\<open>strings.Split\<close> with a one-byte separator.\<close>

fun Split :: "string \<Rightarrow> char \<Rightarrow> string list" where
  "Split [] c = [[]]"
| "Split (x # s) c =
     (if x = c then [] # Split s c
      else (case Split s c of [] \<Rightarrow> [[x]] | h # t \<Rightarrow> (x # h) # t))"

fun Join :: "string list \<Rightarrow> char \<Rightarrow> string" where
  "Join [] c = []"
| "Join [h] c = h"
| "Join (h # t) c = h @ c # Join t c"

lemma Split_not_Nil [simp]: "Split s c \<noteq> []"
  by (cases s) (auto split: list.splits)

lemma Join_Split: "Join (Split s c) c = s"
proof (induction s)
  case (Cons x s)
  obtain h t where "Split s c = h # t" by (metis Split_not_Nil list.exhaust)
  with Cons show ?case by (cases t) auto
qed simp

lemma Split_pieces: "seg \<in> set (Split s c) \<Longrightarrow> c \<notin> set seg"
  by (induction s arbitrary: seg) (auto split: if_splits list.splits)

lemma Split_notin: "c \<notin> set s \<Longrightarrow> Split s c = [s]"
  by (induction s) auto

lemma Split_append: "c \<notin> set a \<Longrightarrow> Split (a @ c # b) c = a # Split b c"
  by (induction a) auto

lemma Split_snoc: "c \<notin> set t \<Longrightarrow> Split (s @ t) c = butlast (Split s c) @ [last (Split s c) @ t]"
proof (induction s)
  case (Cons x s)
  have "\<exists>h u. Split s c = h # u" by (metis Split_not_Nil list.exhaust)
  with Cons show ?case by (auto simp: Split_notin)
qed (simp add: Split_notin)

lemma length_Split: "length (Split s c) = Suc (count_list s c)"
  by (induction s) (auto split: list.splits)

subsection \<open>Replacing\<close>

text \<open>
  \<open>strings.ReplaceAll\<close>: non-overlapping occurrences from the left. The program
  never calls it with an empty \<open>old\<close>; Go's behaviour there is left out.
\<close>

function ReplaceAll :: "string \<Rightarrow> string \<Rightarrow> string \<Rightarrow> string" where
  "ReplaceAll s old new =
     (if old = [] then s
      else if HasPrefix s old then new @ ReplaceAll (drop (length old) s) old new
      else (case s of [] \<Rightarrow> [] | c # s' \<Rightarrow> c # ReplaceAll s' old new))"
  by pat_completeness auto
termination
  by (relation "measure (\<lambda>(s, old, new). length s)") (auto dest: HasPrefix_drop_less)

declare ReplaceAll.simps [simp del]

lemma ReplaceAll_absent: "\<not> Contains s old \<Longrightarrow> ReplaceAll s old new = s"
proof (induction s)
  case Nil
  then show ?case
    by (subst ReplaceAll.simps) simp
next
  case (Cons c s)
  from Cons.prems have "\<not> Contains s old" "\<not> HasPrefix (c # s) old"
    by (auto simp: Contains_def split: if_splits)
  with Cons.IH show ?case by (subst ReplaceAll.simps) simp
qed

subsection \<open>White space and case\<close>

text \<open>
  \<open>strings.TrimSpace\<close> removes Unicode white space at both ends. The code points
  are given by their UTF-8 encodings; no encoding is a proper suffix of another
  code point's, so a byte-wise suffix test is Go's backwards decoding.
\<close>

definition utf8_spaces :: "string list" where
  "utf8_spaces =
     [''\<newline>'', '' '', [CHR 0x09], [CHR 0x0B], [CHR 0x0C], [CHR 0x0D],
      [CHR 0xC2, CHR 0x85], [CHR 0xC2, CHR 0xA0], [CHR 0xE1, CHR 0x9A, CHR 0x80],
      [CHR 0xE2, CHR 0x80, CHR 0x80], [CHR 0xE2, CHR 0x80, CHR 0x81],
      [CHR 0xE2, CHR 0x80, CHR 0x82], [CHR 0xE2, CHR 0x80, CHR 0x83],
      [CHR 0xE2, CHR 0x80, CHR 0x84], [CHR 0xE2, CHR 0x80, CHR 0x85],
      [CHR 0xE2, CHR 0x80, CHR 0x86], [CHR 0xE2, CHR 0x80, CHR 0x87],
      [CHR 0xE2, CHR 0x80, CHR 0x88], [CHR 0xE2, CHR 0x80, CHR 0x89],
      [CHR 0xE2, CHR 0x80, CHR 0x8A], [CHR 0xE2, CHR 0x80, CHR 0xA8],
      [CHR 0xE2, CHR 0x80, CHR 0xA9], [CHR 0xE2, CHR 0x80, CHR 0xAF],
      [CHR 0xE2, CHR 0x81, CHR 0x9F], [CHR 0xE3, CHR 0x80, CHR 0x80]]"

definition space_prefix :: "string list \<Rightarrow> string \<Rightarrow> nat" where
  "space_prefix ws s = (case find (HasPrefix s) ws of None \<Rightarrow> 0 | Some w \<Rightarrow> length w)"

lemma space_prefix_le: "space_prefix ws s \<le> length s"
  by (auto simp: space_prefix_def HasPrefix_iff find_Some_iff split: option.splits)

function trim_front :: "string list \<Rightarrow> string \<Rightarrow> string" where
  "trim_front ws s = (if space_prefix ws s = 0 then s
                      else trim_front ws (drop (space_prefix ws s) s))"
  by pat_completeness auto
termination
proof (relation "measure (\<lambda>(ws, s). length s)", goal_cases)
  case (2 ws s)
  then show ?case using space_prefix_le [of ws s] by (cases s) auto
qed simp

declare trim_front.simps [simp del]

definition TrimSpace :: "string \<Rightarrow> string" where
  "TrimSpace s = rev (trim_front (map rev utf8_spaces) (rev (trim_front utf8_spaces s)))"

lemma trim_front_suffix: "\<exists>r. s = r @ trim_front ws s"
proof (induction ws s rule: trim_front.induct)
  case (1 ws s)
  show ?case
  proof (cases "space_prefix ws s = 0")
    case True
    then show ?thesis by (subst trim_front.simps) simp
  next
    case False
    with 1 obtain r where r: "drop (space_prefix ws s) s = r @ trim_front ws s"
      by (auto simp: trim_front.simps [of ws s])
    have "s = take (space_prefix ws s) s @ drop (space_prefix ws s) s" by simp
    also have "\<dots> = (take (space_prefix ws s) s @ r) @ trim_front ws s" by (simp add: r)
    finally show ?thesis by blast
  qed
qed

lemma TrimSpace_infix: "\<exists>a b. s = a @ TrimSpace s @ b"
proof -
  obtain r where r: "s = r @ trim_front utf8_spaces s" using trim_front_suffix by blast
  obtain r' where "rev (trim_front utf8_spaces s) =
      r' @ trim_front (map rev utf8_spaces) (rev (trim_front utf8_spaces s))"
    using trim_front_suffix by blast
  then have "trim_front utf8_spaces s = TrimSpace s @ rev r'"
    by (metis TrimSpace_def rev_append rev_rev_ident)
  with r show ?thesis by metis
qed

lemma TrimSpace_Nil [simp]: "TrimSpace [] = []"
  using TrimSpace_infix [of "[]"] by simp

text \<open>
  \<open>strings.ToLower\<close> and \<open>strings.EqualFold\<close>. The program compares the result of the
  one, and the argument of the other, with ASCII names only, so what counts is which
  runes become ASCII: the letters, and three runes outside ASCII. The capital I with
  a dot (U+0130) and the Kelvin sign (U+212A) have the lower cases i and k; the long s
  (U+017F) and the Kelvin sign fold with s and k. Every other rune, and every invalid byte,
  stays outside ASCII, and is left as it is.
\<close>

definition lower :: "char \<Rightarrow> char" where
  "lower c = (if 65 \<le> (of_char c :: nat) \<and> (of_char c :: nat) \<le> 90
              then char_of ((of_char c :: nat) + 32) else c)"

fun map_runes :: "(string \<times> char) list \<Rightarrow> string \<Rightarrow> string" where
  "map_runes rs [] = []"
| "map_runes rs (c # s) =
     (case find (\<lambda>(r, d). HasPrefix (c # s) r) rs of
        Some (r, d) \<Rightarrow> d # map_runes rs (drop (length r - 1) s)
      | None \<Rightarrow> lower c # map_runes rs s)"

definition kelvin_sign :: string where "kelvin_sign = [CHR 0xE2, CHR 0x84, CHR 0xAA]"
definition dotted_I :: string where "dotted_I = [CHR 0xC4, CHR 0xB0]"
definition long_s :: string where "long_s = [CHR 0xC5, CHR 0xBF]"

definition ToLower :: "string \<Rightarrow> string" where
  "ToLower s = map_runes [(kelvin_sign, CHR ''k''), (dotted_I, CHR ''i'')] s"

definition EqualFold :: "string \<Rightarrow> string \<Rightarrow> bool" where
  "EqualFold s t \<longleftrightarrow>
     map_runes [(kelvin_sign, CHR ''k''), (long_s, CHR ''s'')] s =
     map_runes [(kelvin_sign, CHR ''k''), (long_s, CHR ''s'')] t"

lemma lower_case_runes:
  "ToLower (''P'' @ dotted_I @ ''ng'') = ''ping''"
  "EqualFold (''web'' @ long_s @ ''oc'' @ kelvin_sign @ ''ET'') ''websocket''"
  "\<not> EqualFold (''p'' @ dotted_I) ''pi''"
  by code_simp+

lemmas [go_defs] = HasPrefix_def HasSuffix_def TrimPrefix_def TrimSuffix_def
  IndexByte_def ContainsAny_def Contains_def

end
