(* ===== verification/Go_Json.thy ===== *)
theory Go_Json
  imports Go_Strconv
begin

text \<open>
  What the program uses of \<open>encoding/json\<close>: the scanner's grammar and its
  nesting limit, string literals with their escapes and UTF-8 repair, the decoding
  of an object into struct fields or into a map, and the encoder's string literals.

  A decoded value keeps a number as its literal (\<open>json.Number\<close>), and an object
  keeps for each member the source text of its value, which is what a
  \<open>json.RawMessage\<close> field receives.
\<close>

datatype json =
    JNull
  | JBool bool
  | JNum string
  | JStr string
  | JArr "json list"
  | JObj "(string \<times> string \<times> json) list"

subsection \<open>UTF-8\<close>

abbreviation byte :: "char \<Rightarrow> nat" where "byte c \<equiv> of_char c"

definition conts :: "nat \<Rightarrow> string \<Rightarrow> bool" where
  "conts n s \<longleftrightarrow> n \<le> length s \<and> list_all (\<lambda>c. 0x80 \<le> byte c \<and> byte c \<le> 0xBF) (take n s)"

text \<open>The length of the valid encoding at the head of a string, 0 when there is none.\<close>

fun rune_len :: "string \<Rightarrow> nat" where
  "rune_len [] = 0"
| "rune_len (a # s) =
     (let x = byte a; y = (case s of [] \<Rightarrow> 0 | b # _ \<Rightarrow> byte b)
      in if x < 0x80 then 1
         else if 0xC2 \<le> x \<and> x \<le> 0xDF then (if conts 1 s then 2 else 0)
         else if 0xE0 \<le> x \<and> x \<le> 0xEF then
           (if conts 2 s \<and> (x = 0xE0 \<longrightarrow> 0xA0 \<le> y) \<and> (x = 0xED \<longrightarrow> y \<le> 0x9F) then 3 else 0)
         else if 0xF0 \<le> x \<and> x \<le> 0xF4 then
           (if conts 3 s \<and> (x = 0xF0 \<longrightarrow> 0x90 \<le> y) \<and> (x = 0xF4 \<longrightarrow> y \<le> 0x8F) then 4 else 0)
         else 0)"

lemma rune_len_le: "rune_len s \<le> length s"
  by (cases s) (auto simp: Let_def conts_def split: list.splits)

declare rune_len.simps(2) [simp del]

definition encode_rune :: "nat \<Rightarrow> string" where
  "encode_rune r =
     (if r < 0x80 then [char_of r]
      else if r < 0x800 then [char_of (0xC0 + r div 64), char_of (0x80 + r mod 64)]
      else if r < 0x10000 then
        [char_of (0xE0 + r div 4096), char_of (0x80 + r div 64 mod 64), char_of (0x80 + r mod 64)]
      else
        [char_of (0xF0 + r div 262144), char_of (0x80 + r div 4096 mod 64),
         char_of (0x80 + r div 64 mod 64), char_of (0x80 + r mod 64)])"

text \<open>U+FFFD, what invalid input becomes.\<close>

definition replacement :: string where
  "replacement = [CHR 0xEF, CHR 0xBF, CHR 0xBD]"

function valid_utf8 :: "string \<Rightarrow> bool" where
  "valid_utf8 s \<longleftrightarrow>
     (if s = [] then True
      else if rune_len s = 0 then False
      else valid_utf8 (drop (rune_len s) s))"
  by pat_completeness auto
termination
  by (relation "measure length") auto

declare valid_utf8.simps [simp del]

lemma valid_utf8_ascii: "list_all (\<lambda>c. byte c < 0x80) s \<Longrightarrow> valid_utf8 s"
proof (induction s)
  case (Cons c s)
  then show ?case by (subst valid_utf8.simps) (simp add: rune_len.simps(2) Let_def)
qed (subst valid_utf8.simps, simp)

subsection \<open>Literals\<close>

definition is_space :: "char \<Rightarrow> bool" where
  "is_space c \<longleftrightarrow> c = CHR '' '' \<or> c = CHR 0x09 \<or> c = CHR 0x0A \<or> c = CHR 0x0D"

definition skip_ws :: "string \<Rightarrow> string" where
  "skip_ws s = dropWhile is_space s"

lemma skip_ws_length: "length (skip_ws s) \<le> length s"
  by (simp add: skip_ws_def length_dropWhile_le)

definition hex_val :: "char \<Rightarrow> nat option" where
  "hex_val c =
     (let x = byte c
      in if 48 \<le> x \<and> x \<le> 57 then Some (x - 48)
         else if 97 \<le> x \<and> x \<le> 102 then Some (x - 87)
         else if 65 \<le> x \<and> x \<le> 70 then Some (x - 55)
         else None)"

fun hex4 :: "string \<Rightarrow> (nat \<times> string) option" where
  "hex4 (a # b # c # d # r) =
     (case (hex_val a, hex_val b, hex_val c, hex_val d) of
        (Some w, Some x, Some y, Some z) \<Rightarrow> Some (4096 * w + 256 * x + 16 * y + z, r)
      | _ \<Rightarrow> None)"
| "hex4 _ = None"

lemma hex4_length: "hex4 s = Some (v, r) \<Longrightarrow> length r < length s"
  by (induction s rule: hex4.induct) (auto split: option.splits)

text \<open>One escape sequence, after its backslash. A lone surrogate becomes U+FFFD.\<close>

definition unicode_escape :: "string \<Rightarrow> (string \<times> string) option" where
  "unicode_escape q =
     (case hex4 q of
        None \<Rightarrow> None
      | Some (v, q') \<Rightarrow>
          if 0xD800 \<le> v \<and> v \<le> 0xDFFF then
            (if HasPrefix q' [CHR 0x5C, CHR ''u''] then
               (case hex4 (drop 2 q') of
                  Some (w, q3) \<Rightarrow>
                    if v \<le> 0xDBFF \<and> 0xDC00 \<le> w \<and> w \<le> 0xDFFF
                    then Some (encode_rune (0x10000 + (v - 0xD800) * 0x400 + (w - 0xDC00)), q3)
                    else Some (replacement, q')
                | None \<Rightarrow> Some (replacement, q'))
             else Some (replacement, q'))
          else Some (encode_rune v, q'))"

definition jescape :: "string \<Rightarrow> (string \<times> string) option" where
  "jescape r =
     (case r of
        [] \<Rightarrow> None
      | e # q \<Rightarrow>
          if e = CHR 0x22 \<or> e = CHR 0x5C \<or> e = CHR ''/'' then Some ([e], q)
          else if e = CHR ''b'' then Some ([CHR 0x08], q)
          else if e = CHR ''f'' then Some ([CHR 0x0C], q)
          else if e = CHR ''n'' then Some ([CHR 0x0A], q)
          else if e = CHR ''r'' then Some ([CHR 0x0D], q)
          else if e = CHR ''t'' then Some ([CHR 0x09], q)
          else if e = CHR ''u'' then unicode_escape q
          else None)"

lemma unicode_escape_length: "unicode_escape q = Some (t, r) \<Longrightarrow> length r < length q"
  by (fastforce simp: unicode_escape_def dest: hex4_length split: option.splits if_splits prod.splits)

lemma jescape_length: "jescape q = Some (t, r) \<Longrightarrow> length r < length q"
  by (auto simp: jescape_def dest: unicode_escape_length split: list.splits if_splits)

text \<open>A string literal after its opening quote: the decoded bytes and the rest.\<close>

function jstring :: "string \<Rightarrow> (string \<times> string) option" where
  "jstring s =
     (case s of
        [] \<Rightarrow> None
      | c # r \<Rightarrow>
          if c = CHR 0x22 then Some ([], r)
          else if c = CHR 0x5C then
            (case jescape r of
               None \<Rightarrow> None
             | Some (t, q) \<Rightarrow> map_option (apfst ((@) t)) (jstring q))
          else if byte c < 0x20 then None
          else if rune_len s = 0 then map_option (apfst ((@) replacement)) (jstring r)
          else map_option (apfst ((@) (take (rune_len s) s))) (jstring (drop (rune_len s) s)))"
  by pat_completeness auto
termination
  by (relation "measure length") (auto dest: jescape_length)

declare jstring.simps [simp del]

lemma jstring_cases:
  assumes "jstring s = Some (t, r)"
  obtains (quote) q where "s = CHR 0x22 # q" "t = []" "r = q"
  | (step) s' t1 t2 where "length s' < length s" "jstring s' = Some (t2, r)" "t = t1 @ t2"
proof -
  from assms obtain c q where s: "s = c # q"
    by (subst (asm) jstring.simps) (auto split: list.splits)
  consider "c = CHR 0x22" | "c = CHR 0x5C" | "c \<noteq> CHR 0x22" "c \<noteq> CHR 0x5C" by blast
  then show thesis
  proof cases
    case 1
    with assms s show ?thesis by (subst (asm) jstring.simps) (auto intro: quote)
  next
    case 2
    with assms s obtain u v where uv: "jescape q = Some (u, v)"
        "map_option (apfst ((@) u)) (jstring v) = Some (t, r)"
      by (subst (asm) jstring.simps) (auto split: option.splits)
    then show ?thesis using jescape_length [OF uv(1)] s by (auto intro: step [of v])
  next
    case 3
    define k where "k = (if rune_len s = 0 then 1 else rune_len s)"
    from 3 assms s have "\<exists>u. map_option (apfst ((@) u)) (jstring (drop k s)) = Some (t, r)"
      unfolding k_def by (subst (asm) jstring.simps) (auto split: if_splits)
    moreover have "length (drop k s) < length s" using s by (simp add: k_def)
    ultimately show ?thesis by (auto intro: step [of "drop k s"])
  qed
qed

lemma jstring_length: "jstring s = Some (t, r) \<Longrightarrow> length r < length s"
proof (induction "length s" arbitrary: s t r rule: less_induct)
  case less
  from less.prems show ?case
  proof (cases rule: jstring_cases)
    case (step s' t1 t2)
    then show ?thesis using less.hyps [of s' t2 r] by simp
  qed simp
qed

subsection \<open>Numbers\<close>

text \<open>
  The JSON number grammar, longest match. Digits after a leading 0 are not part
  of the literal, as in the scanner.
\<close>

definition digits1 :: "string \<Rightarrow> string option" where
  "digits1 s = (case s of c # r \<Rightarrow> if is_digit c then Some (dropWhile is_digit r) else None | [] \<Rightarrow> None)"

definition jint :: "string \<Rightarrow> string option" where
  "jint s =
     (let s' = (if HasPrefix s ''-'' then drop 1 s else s)
      in if HasPrefix s' ''0'' then Some (drop 1 s') else digits1 s')"

definition jfrac :: "string \<Rightarrow> string option" where
  "jfrac s = (if HasPrefix s ''.'' then digits1 (drop 1 s) else Some s)"

definition jexp :: "string \<Rightarrow> string option" where
  "jexp s =
     (if HasPrefix s ''e'' \<or> HasPrefix s ''E'' then
        (let s' = drop 1 s
         in digits1 (if HasPrefix s' ''+'' \<or> HasPrefix s' ''-'' then drop 1 s' else s'))
      else Some s)"

definition jnumber :: "string \<Rightarrow> (string \<times> string) option" where
  "jnumber s =
     (case Option.bind (Option.bind (jint s) jfrac) jexp of
        None \<Rightarrow> None
      | Some r \<Rightarrow> Some (take (length s - length r) s, r))"

lemma digits1_length: "digits1 s = Some r \<Longrightarrow> length r < length s"
  by (auto simp: digits1_def less_Suc_eq_le length_dropWhile_le split: list.splits if_splits)

lemma jint_length: "jint s = Some r \<Longrightarrow> length r < length s"
  by (auto simp: jint_def HasPrefix_iff Let_def dest!: digits1_length split: if_splits)

lemma jfrac_length: "jfrac s = Some r \<Longrightarrow> length r \<le> length s"
  by (auto simp: jfrac_def dest!: digits1_length split: if_splits)

lemma jexp_length: "jexp s = Some r \<Longrightarrow> length r \<le> length s"
  by (auto simp: jexp_def Let_def dest!: digits1_length split: if_splits)

lemma jnumber_length: "jnumber s = Some (l, r) \<Longrightarrow> length r < length s"
  by (auto simp: jnumber_def bind_eq_Some_conv split: option.splits
      dest!: jint_length jfrac_length jexp_length)

subsection \<open>Values\<close>

text \<open>
  The recursive descent spends one unit of fuel per call; \<open>d\<close> is the nesting
  still allowed (the scanner refuses more than 10000 levels). \<open>jvalue\<close> starts at
  the first byte of a value, \<open>jelems\<close> at an array element and \<open>jmembers\<close> at
  the quote of a key.
\<close>

fun jvalue :: "nat \<Rightarrow> nat \<Rightarrow> string \<Rightarrow> (json \<times> string) option"
  and jelems :: "nat \<Rightarrow> nat \<Rightarrow> string \<Rightarrow> (json list \<times> string) option"
  and jmembers :: "nat \<Rightarrow> nat \<Rightarrow> string \<Rightarrow> ((string \<times> string \<times> json) list \<times> string) option" where
  "jvalue 0 d s = None"
| "jvalue (Suc f) d s =
     (if HasPrefix s ''{'' then
        (if d = 0 then None
         else if HasPrefix (skip_ws (drop 1 s)) ''}'' then Some (JObj [], drop 1 (skip_ws (drop 1 s)))
         else map_option (apfst JObj) (jmembers f (d - 1) (skip_ws (drop 1 s))))
      else if HasPrefix s ''['' then
        (if d = 0 then None
         else if HasPrefix (skip_ws (drop 1 s)) '']'' then Some (JArr [], drop 1 (skip_ws (drop 1 s)))
         else map_option (apfst JArr) (jelems f (d - 1) (skip_ws (drop 1 s))))
      else if HasPrefix s [CHR 0x22] then map_option (apfst JStr) (jstring (drop 1 s))
      else if HasPrefix s ''true'' then Some (JBool True, drop 4 s)
      else if HasPrefix s ''false'' then Some (JBool False, drop 5 s)
      else if HasPrefix s ''null'' then Some (JNull, drop 4 s)
      else map_option (apfst JNum) (jnumber s))"
| "jelems 0 d s = None"
| "jelems (Suc f) d s =
     (case jvalue f d s of
        None \<Rightarrow> None
      | Some (v, q) \<Rightarrow>
          if HasPrefix (skip_ws q) '','' then
            map_option (apfst ((#) v)) (jelems f d (skip_ws (drop 1 (skip_ws q))))
          else if HasPrefix (skip_ws q) '']'' then Some ([v], drop 1 (skip_ws q))
          else None)"
| "jmembers 0 d s = None"
| "jmembers (Suc f) d s =
     (if \<not> HasPrefix s [CHR 0x22] then None
      else (case jstring (drop 1 s) of
        None \<Rightarrow> None
      | Some (k, q) \<Rightarrow>
          if \<not> HasPrefix (skip_ws q) '':'' then None
          else (let u = skip_ws (drop 1 (skip_ws q))
                in case jvalue f d u of
                     None \<Rightarrow> None
                   | Some (v, q') \<Rightarrow>
                       let m = (k, take (length u - length q') u, v); w = skip_ws q'
                       in if HasPrefix w '','' then
                            map_option (apfst ((#) m)) (jmembers f d (skip_ws (drop 1 w)))
                          else if HasPrefix w ''}'' then Some ([m], drop 1 w)
                          else None)))"

definition max_nesting :: nat where "max_nesting = 10000"

text \<open>\<open>Decoder.Decode\<close>: the first value of the input, and what follows it.\<close>

definition decode_next :: "string \<Rightarrow> (json \<times> string) option" where
  "decode_next s = (let t = skip_ws s in jvalue (2 * length t + 2) max_nesting t)"

text \<open>\<open>json.Unmarshal\<close>: one value and nothing but white space after it.\<close>

definition json_parse :: "string \<Rightarrow> json option" where
  "json_parse s =
     (case decode_next s of
        None \<Rightarrow> None
      | Some (v, r) \<Rightarrow> if skip_ws r = [] then Some v else None)"

subsection \<open>Every call consumes input, and the fuel is enough\<close>

lemma HasPrefix_length: "HasPrefix s p \<Longrightarrow> length p \<le> length s"
  by (auto simp: HasPrefix_iff)

lemma jstring_drop_length: "jstring (drop 1 s) = Some (t, r) \<Longrightarrow> length r < length s"
  by (drule jstring_length) simp

lemma skip_drop_length:
  "HasPrefix s [c] \<Longrightarrow> length (skip_ws (drop 1 s)) < length s"
  by (rule le_less_trans [OF skip_ws_length]) (auto simp: HasPrefix_iff)

lemma drop_skip_length:
  "HasPrefix (skip_ws s) [c] \<Longrightarrow> length (drop 1 (skip_ws s)) < length s"
  using skip_ws_length [of s] by (cases "skip_ws s") auto

lemma skip_drop_skip_length:
  "HasPrefix (skip_ws s) [c] \<Longrightarrow> length (skip_ws (drop 1 (skip_ws s))) < length s"
  using drop_skip_length skip_ws_length le_less_trans by blast

text \<open>The cases of a value, with what each one needs of the rest of the parser.\<close>

lemma jvalue_cases:
  assumes "jvalue (Suc f) d s = Some (v, r)"
  obtains (leaf) "length r < length s"
  | (members) t ms where "length t < length s" "jmembers f (d - 1) t = Some (ms, r)" "v = JObj ms"
  | (elems) t vs where "length t < length s" "jelems f (d - 1) t = Some (vs, r)" "v = JArr vs"
proof -
  let ?t = "skip_ws (drop 1 s)"
  consider (obj) "HasPrefix s ''{''" | (arr) "HasPrefix s ''[''" "\<not> HasPrefix s ''{''"
    | (rest) "\<not> HasPrefix s ''{''" "\<not> HasPrefix s ''[''" by blast
  then show thesis
  proof cases
    case obj
    have t: "length ?t < length s" by (rule skip_drop_length [OF obj])
    with obj assms show ?thesis
      by (auto split: if_splits intro: members leaf)
  next
    case arr
    have t: "length ?t < length s" by (rule skip_drop_length [OF arr(1)])
    with arr assms show ?thesis
      by (auto split: if_splits intro: elems leaf)
  next
    case rest
    with assms have "length r < length s"
      by (auto split: if_splits dest!: jnumber_length jstring_length HasPrefix_length)
    then show ?thesis by (rule leaf)
  qed
qed

lemma jelems_cases:
  assumes "jelems (Suc f) d s = Some (vs, r)"
  obtains (last) v q where "jvalue f d s = Some (v, q)" "length r < length q" "vs = [v]"
  | (more) v q t vs' where "jvalue f d s = Some (v, q)" "length t < length q"
      "jelems f d t = Some (vs', r)" "vs = v # vs'"
proof -
  from assms obtain v q where v: "jvalue f d s = Some (v, q)" by (auto split: option.splits)
  show thesis
  proof (cases "HasPrefix (skip_ws q) '',''")
    case True
    from assms v True show ?thesis
      by (auto intro: more [OF v skip_drop_skip_length [OF True]])
  next
    case False
    with assms v have "HasPrefix (skip_ws q) '']''" "r = drop 1 (skip_ws q)" "vs = [v]"
      by (auto split: if_splits)
    then show ?thesis using last [OF v] drop_skip_length by blast
  qed
qed

lemma jmembers_cases:
  assumes "jmembers (Suc f) d s = Some (ms, r)"
  obtains (last) k v t q where "length t < length s" "jvalue f d t = Some (v, q)"
      "length r < length q" "ms = [(k, take (length t - length q) t, v)]"
  | (more) k v t q u ms' where "length t < length s" "jvalue f d t = Some (v, q)"
      "length u < length q" "jmembers f d u = Some (ms', r)"
      "ms = (k, take (length t - length q) t, v) # ms'"
proof -
  from assms obtain k q where k: "HasPrefix s [CHR 0x22]" "jstring (drop 1 s) = Some (k, q)"
      "HasPrefix (skip_ws q) '':''"
    by (auto split: if_splits option.splits)
  define t where "t = skip_ws (drop (Suc 0) (skip_ws q))"
  have "length t < length q" using skip_drop_skip_length [OF k(3)] by (simp add: t_def)
  also have "length q < length s" using jstring_length [OF k(2)] by simp
  finally have t: "length t < length s" .
  from assms k obtain v q' where v: "jvalue f d t = Some (v, q')"
    by (auto simp: t_def Let_def split: option.splits)
  show thesis
  proof (cases "HasPrefix (skip_ws q') '',''")
    case True
    from assms k v True show ?thesis
      using skip_drop_skip_length [OF True]
      by (auto simp: t_def [symmetric] Let_def intro: more [OF t v])
  next
    case False
    with assms k v have "HasPrefix (skip_ws q') ''}''" "r = drop 1 (skip_ws q')"
        "ms = [(k, take (length t - length q') t, v)]"
      by (auto simp: t_def [symmetric] Let_def split: if_splits)
    then show ?thesis using last [OF t v] drop_skip_length by blast
  qed
qed

lemma parser_shrinks:
  "(\<forall>d s v r. jvalue f d s = Some (v, r) \<longrightarrow> length r < length s) \<and>
   (\<forall>d s vs r. jelems f d s = Some (vs, r) \<longrightarrow> length r < length s) \<and>
   (\<forall>d s ms r. jmembers f d s = Some (ms, r) \<longrightarrow> length r < length s)"
proof (induction f)
  case (Suc f)
  have "length r < length s" if "jvalue (Suc f) d s = Some (v, r)" for d s v r
    using that by (cases rule: jvalue_cases) (use Suc in \<open>fastforce\<close>)+
  moreover have "length r < length s" if "jelems (Suc f) d s = Some (vs, r)" for d s vs r
    using that by (cases rule: jelems_cases) (use Suc in \<open>fastforce\<close>)+
  moreover have "length r < length s" if "jmembers (Suc f) d s = Some (ms, r)" for d s ms r
    using that by (cases rule: jmembers_cases) (use Suc in \<open>fastforce\<close>)+
  ultimately show ?case by blast
qed simp

lemmas jvalue_shrinks = parser_shrinks [THEN conjunct1, rule_format]

text \<open>
  With twice the input's length and two to spare, more fuel changes nothing: the
  \<open>None\<close> of an exhausted budget is never the \<open>None\<close> of \<open>decode_next\<close>.
\<close>

lemma parser_fuel_step:
  "(\<forall>d s. 2 * length s + 1 \<le> f \<longrightarrow> jvalue (Suc f) d s = jvalue f d s) \<and>
   (\<forall>d s. 2 * length s + 2 \<le> f \<longrightarrow> jelems (Suc f) d s = jelems f d s) \<and>
   (\<forall>d s. 2 * length s + 2 \<le> f \<longrightarrow> jmembers (Suc f) d s = jmembers f d s)"
proof (induction f)
  case 0
  then show ?case by simp
next
  case (Suc f)
  have IHv: "jvalue (Suc f) d t = jvalue f d t" if "2 * length t + 1 \<le> f" for d t
    using Suc that by blast
  have IHe: "jelems (Suc f) d t = jelems f d t" if "2 * length t + 2 \<le> f" for d t
    using Suc that by blast
  have IHm: "jmembers (Suc f) d t = jmembers f d t" if "2 * length t + 2 \<le> f" for d t
    using Suc that by blast
  have val: "jvalue (Suc (Suc f)) d s = jvalue (Suc f) d s" if len: "2 * length s + 1 \<le> Suc f" for d s
  proof -
    have "2 * length (skip_ws (drop 1 s)) + 2 \<le> f" if "HasPrefix s [c]" for c
      using skip_drop_length [OF that] len by linarith
    then show ?thesis
      unfolding jvalue.simps(2) [of "Suc f" d s] jvalue.simps(2) [of f d s]
      by (intro if_cong refl) (simp_all only: IHe IHm)
  qed
  have elems: "jelems (Suc (Suc f)) d s = jelems (Suc f) d s" if len: "2 * length s + 2 \<le> Suc f" for d s
  proof -
    have v: "jvalue (Suc f) d s = jvalue f d s" using len by (intro IHv) simp
    show ?thesis
    proof (cases "jvalue f d s")
      case None
      then show ?thesis using v by (simp only: jelems.simps(2) option.case)
    next
      case (Some p)
      obtain x q where p: "p = (x, q)" by (cases p)
      have q: "length q < length s" using Some p jvalue_shrinks by blast
      have "jelems (Suc f) d (skip_ws (drop 1 (skip_ws q))) = jelems f d (skip_ws (drop 1 (skip_ws q)))"
        if "HasPrefix (skip_ws q) '',''"
        using skip_drop_skip_length [OF that] q len by (intro IHe) linarith
      then show ?thesis
        unfolding jelems.simps(2) [of "Suc f" d s] jelems.simps(2) [of f d s] v Some p
        by simp
    qed
  qed
  have mems: "jmembers (Suc (Suc f)) d s = jmembers (Suc f) d s" if len: "2 * length s + 2 \<le> Suc f" for d s
  proof (cases "HasPrefix s [CHR 0x22]")
    case False
    then show ?thesis by (simp only: jmembers.simps(2) if_True not_False_eq_True)
  next
    case True
    have v: "jvalue (Suc f) d (skip_ws (drop 1 (skip_ws q))) = jvalue f d (skip_ws (drop 1 (skip_ws q)))"
      if "jstring (drop 1 s) = Some (k, q)" "HasPrefix (skip_ws q) '':''" for k q
      using jstring_drop_length [OF that(1)] skip_drop_skip_length [OF that(2)] len
      by (intro IHv) linarith
    have m: "jmembers (Suc f) d (skip_ws (drop 1 (skip_ws q'))) = jmembers f d (skip_ws (drop 1 (skip_ws q')))"
      if "jstring (drop 1 s) = Some (k, q)" "HasPrefix (skip_ws q) '':''"
        "jvalue f d (skip_ws (drop 1 (skip_ws q))) = Some (x, q')" "HasPrefix (skip_ws q') '',''" for k q x q'
      using jstring_drop_length [OF that(1)] skip_drop_skip_length [OF that(2)]
        jvalue_shrinks [OF that(3)] skip_drop_skip_length [OF that(4)] len
      by (intro IHm) linarith
    show ?thesis
    proof (cases "jstring (drop 1 s)")
      case None
      with True show ?thesis by (simp only: jmembers.simps(2) option.case if_False not_True_eq_False)
    next
      case (Some p)
      obtain k q where p: "p = (k, q)" by (cases p)
      note js = Some [unfolded p]
      show ?thesis
      proof (cases "HasPrefix (skip_ws q) '':''")
        case False
        with True js show ?thesis by (simp only: jmembers.simps(2) option.case prod.case if_True if_False not_False_eq_True not_True_eq_False)
      next
        case col: True
        show ?thesis
          unfolding jmembers.simps(2) [of "Suc f" d s] jmembers.simps(2) [of f d s] js option.case prod.case
            Let_def v [OF js col]
          using m [OF js col] by (auto simp: col Let_def
              simp del: jmembers.simps jvalue.simps split: option.splits)
      qed
    qed
  qed
  from val elems mems show ?case by blast
qed

lemma decode_fuel:
  assumes "2 * length s + 2 \<le> f"
  shows "jvalue f d s = jvalue (2 * length s + 2) d s"
  using assms
proof (induction f rule: dec_induct)
  case (step n)
  have "jvalue (Suc n) d s = jvalue n d s"
    using parser_fuel_step [of n] step.hyps(1) by simp
  with step.IH show ?case by simp
qed simp

end
