(* ===== verification/Go_Json_Decode.thy ===== *)
theory Go_Json_Decode
  imports Go_Json
begin

text \<open>
  Decoding a parsed value into Go types: struct fields with the case-insensitive
  name match, \<open>null\<close> as "leave the destination alone", type errors that are
  reported after the rest has been decoded, and maps whose later keys win.
\<close>

subsection \<open>Matching a key to a struct field\<close>

definition upper :: "char \<Rightarrow> char" where
  "upper c = (if 97 \<le> byte c \<and> byte c \<le> 122 then char_of (byte c - 32) else c)"

text \<open>
  \<open>foldName\<close>: ASCII letters to upper case, and the two code points outside ASCII
  that fold into it (U+017F to S, U+212A to K). Other code points never fold into
  ASCII, so leaving them alone decides the match with the ASCII field names alike.
\<close>

function fold_name :: "string \<Rightarrow> string" where
  "fold_name s =
     (if HasPrefix s [CHR 0xC5, CHR 0xBF] then CHR ''S'' # fold_name (drop 2 s)
      else if HasPrefix s [CHR 0xE2, CHR 0x84, CHR 0xAA] then CHR ''K'' # fold_name (drop 3 s)
      else (case s of [] \<Rightarrow> [] | c # r \<Rightarrow> upper c # fold_name r))"
  by pat_completeness auto
termination
  by (relation "measure length") (auto simp: HasPrefix_iff)

declare fold_name.simps [simp del]

definition field_of :: "string list \<Rightarrow> string \<Rightarrow> string option" where
  "field_of fs k = (if k \<in> set fs then Some k else find (\<lambda>f. fold_name f = fold_name k) fs)"

lemma field_of_exact [simp]: "k \<in> set fs \<Longrightarrow> field_of fs k = Some k"
  by (simp add: field_of_def)

lemma field_of_in: "field_of fs k = Some f \<Longrightarrow> f \<in> set fs"
  by (auto simp: field_of_def find_Some_iff split: if_splits)

subsection \<open>Assigning a value to a field\<close>

datatype 'a assign = Assign 'a | KeepOld | TypeError

definition as_string :: "json \<Rightarrow> string assign" where
  "as_string v = (case v of JStr s \<Rightarrow> Assign s | JNull \<Rightarrow> KeepOld | _ \<Rightarrow> TypeError)"

definition as_bool :: "json \<Rightarrow> bool assign" where
  "as_bool v = (case v of JBool b \<Rightarrow> Assign b | JNull \<Rightarrow> KeepOld | _ \<Rightarrow> TypeError)"

definition as_int :: "json \<Rightarrow> int assign" where
  "as_int v =
     (case v of
        JNum l \<Rightarrow> (case ParseInt l of Some i \<Rightarrow> Assign i | None \<Rightarrow> TypeError)
      | JNull \<Rightarrow> KeepOld
      | _ \<Rightarrow> TypeError)"

fun assign_all :: "(json \<Rightarrow> 'a assign) \<Rightarrow> 'a \<Rightarrow> json list \<Rightarrow> 'a" where
  "assign_all f x [] = x"
| "assign_all f x (v # vs) =
     assign_all f (case f v of Assign y \<Rightarrow> y | _ \<Rightarrow> x) vs"

definition any_type_error :: "(json \<Rightarrow> 'a assign) \<Rightarrow> json list \<Rightarrow> bool" where
  "any_type_error f vs \<longleftrightarrow> list_ex (\<lambda>v. case f v of TypeError \<Rightarrow> True | _ \<Rightarrow> False) vs"

text \<open>The members that go to field \<open>f\<close> of a struct with field names \<open>fs\<close>, in order.\<close>

definition members_for :: "string list \<Rightarrow> string \<Rightarrow> (string \<times> string \<times> json) list \<Rightarrow> (string \<times> json) list" where
  "members_for fs f ms = map snd (filter (\<lambda>(k, _). field_of fs k = Some f) ms)"

definition values_for :: "string list \<Rightarrow> string \<Rightarrow> (string \<times> string \<times> json) list \<Rightarrow> json list" where
  "values_for fs f ms = map snd (members_for fs f ms)"

text \<open>A struct can be decoded from an object, and \<open>null\<close> leaves it alone.\<close>

definition struct_members :: "json \<Rightarrow> (string \<times> string \<times> json) list option" where
  "struct_members v = (case v of JObj ms \<Rightarrow> Some ms | JNull \<Rightarrow> Some [] | _ \<Rightarrow> None)"

text \<open>The source text of the last member that goes to a \<open>json.RawMessage\<close> field.\<close>

definition raw_for :: "string list \<Rightarrow> string \<Rightarrow> (string \<times> string \<times> json) list \<Rightarrow> string" where
  "raw_for fs f ms = (case rev (members_for fs f ms) of [] \<Rightarrow> [] | (raw, _) # _ \<Rightarrow> raw)"

subsection \<open>Maps\<close>

text \<open>
  \<open>Decoder.Decode\<close> into a \<open>map[string]json.RawMessage\<close>: the members in source
  order; a reader takes the last binding of a key (\<^const>\<open>last_of\<close>).
\<close>

definition decode_raw_map :: "string \<Rightarrow> (string \<times> string) list option" where
  "decode_raw_map s =
     (case decode_next s of
        Some (JObj ms, _) \<Rightarrow> Some (map (\<lambda>(k, raw, _). (k, raw)) ms)
      | Some (JNull, _) \<Rightarrow> Some []
      | _ \<Rightarrow> None)"

text \<open>Into a \<open>map[string]any\<close>.\<close>

definition any_map :: "json \<Rightarrow> (string \<times> json) list option" where
  "any_map v =
     (case v of
        JObj ms \<Rightarrow> Some (map (\<lambda>(k, _, x). (k, x)) ms)
      | JNull \<Rightarrow> Some []
      | _ \<Rightarrow> None)"

text \<open>The numbers of a value, which decoding into an \<open>any\<close> converts to floats.\<close>

fun json_numbers :: "json \<Rightarrow> string list" where
  "json_numbers (JNum l) = [l]"
| "json_numbers (JArr vs) = concat (map json_numbers vs)"
| "json_numbers (JObj ms) = concat (map (\<lambda>(k, r, v). json_numbers v) ms)"
| "json_numbers _ = []"

text \<open>A stream of values, as read by calling \<open>Decode\<close> until it fails.\<close>

function decode_stream :: "string \<Rightarrow> json list" where
  "decode_stream s =
     (case decode_next s of None \<Rightarrow> [] | Some (v, r) \<Rightarrow> v # decode_stream r)"
  by pat_completeness auto

lemma decode_next_shrinks: "decode_next s = Some (v, r) \<Longrightarrow> length r < length s"
  unfolding decode_next_def Let_def
  using jvalue_shrinks skip_ws_length le_trans less_le_trans by blast

termination decode_stream
  by (relation "measure length") (auto dest: decode_next_shrinks)

declare decode_stream.simps [simp del]

end
