(* ===== verification/Go_Regexp.thy ===== *)
theory Go_Regexp
  imports Prelude
begin

text \<open>
  The regular expressions of the program are all anchored (\<open>\A ... \z\<close>)
  sequences of bounded repetitions of a character class, with no alternation.
  Such a pattern is a list of segments \<open>(class, lo, hi)\<close>; a class is a list of
  character ranges, as in the source. Every class is ASCII, so matching bytes and
  matching Go's runes agree.
\<close>

type_synonym cclass = "(char \<times> char) list"
type_synonym segment = "cclass \<times> nat \<times> nat"
type_synonym regex = "segment list"

definition in_class :: "cclass \<Rightarrow> char \<Rightarrow> bool" where
  "in_class cs c \<longleftrightarrow>
     list_ex (\<lambda>(a, b). (of_char a :: nat) \<le> of_char c \<and> (of_char c :: nat) \<le> of_char b) cs"

text \<open>A literal string is a sequence of one-character segments.\<close>

definition lit :: "string \<Rightarrow> regex" where
  "lit s = map (\<lambda>c. ([(c, c)], 1, 1)) s"

fun MatchString :: "regex \<Rightarrow> string \<Rightarrow> bool" where
  "MatchString [] s = (s = [])"
| "MatchString ((cs, lo, hi) # r) s =
     list_ex (\<lambda>n. list_all (in_class cs) (take n s) \<and> MatchString r (drop n s))
       [lo..<Suc (min hi (length s))]"

text \<open>
  The reference meaning: the string is a concatenation of one piece per segment,
  each piece within the segment's class and bounds.
\<close>

definition piece_ok :: "segment \<Rightarrow> string \<Rightarrow> bool" where
  "piece_ok sg p \<longleftrightarrow> (case sg of (cs, lo, hi) \<Rightarrow>
     lo \<le> length p \<and> length p \<le> hi \<and> list_all (in_class cs) p)"

lemma MatchString_Cons:
  "MatchString ((cs, lo, hi) # r) s \<longleftrightarrow>
     (\<exists>n. lo \<le> n \<and> n \<le> hi \<and> n \<le> length s \<and>
        list_all (in_class cs) (take n s) \<and> MatchString r (drop n s))"
  by (auto simp: list_ex_iff less_Suc_eq_le simp del: upt_Suc)

lemma MatchString_iff:
  "MatchString r s \<longleftrightarrow> (\<exists>ps. s = concat ps \<and> list_all2 piece_ok r ps)"
proof (induction r arbitrary: s)
  case Nil
  then show ?case by auto
next
  case (Cons sg r)
  obtain cs lo hi where sg: "sg = (cs, lo, hi)" by (cases sg)
  show ?case
  proof
    assume "MatchString (sg # r) s"
    then obtain n where n: "lo \<le> n" "n \<le> hi" "n \<le> length s"
        "list_all (in_class cs) (take n s)" "MatchString r (drop n s)"
      unfolding sg MatchString_Cons by blast
    then obtain ps where ps: "drop n s = concat ps" "list_all2 piece_ok r ps"
      using Cons.IH by blast
    then have "s = concat (take n s # ps)" by (metis append_take_drop_id concat.simps(2))
    moreover have "piece_ok sg (take n s)" using n by (simp add: sg piece_ok_def)
    ultimately show "\<exists>ps. s = concat ps \<and> list_all2 piece_ok (sg # r) ps"
      using ps(2) by blast
  next
    assume "\<exists>ps. s = concat ps \<and> list_all2 piece_ok (sg # r) ps"
    then obtain p ps where p: "s = p @ concat ps" "piece_ok sg p" "list_all2 piece_ok r ps"
      by (auto simp: list_all2_Cons1)
    then have "MatchString r (concat ps)" using Cons.IH by blast
    with p show "MatchString (sg # r) s"
      unfolding sg MatchString_Cons by (intro exI [of _ "length p"]) (simp add: sg piece_ok_def)
  qed
qed

lemma lit_pieces:
  "list_all2 piece_ok (lit w @ r) ps \<Longrightarrow> \<exists>qs. concat ps = w @ concat qs \<and> list_all2 piece_ok r qs"
proof (induction w arbitrary: ps)
  case Nil
  then show ?case by (auto simp: lit_def)
next
  case (Cons c w)
  from Cons.prems obtain p ps' where ps: "ps = p # ps'" "piece_ok ([(c, c)], 1, 1) p"
      "list_all2 piece_ok (lit w @ r) ps'"
    by (auto simp: lit_def list_all2_Cons1)
  from ps(2) have "p = [c]"
    by (cases p) (auto simp: piece_ok_def in_class_def)
  with Cons.IH [OF ps(3)] ps(1) show ?case by auto
qed

end
