(* ===== verification/Vocab.thy ===== *)
theory Vocab
  imports Go_Json_Decode Go_Regexp "HOL-Library.Char_ord" "HOL-Library.List_Lexorder"
begin

text \<open>
  \<open>internal/vocab/vocab.go\<close>: the typed command allowlist and the
  argument-constraint layer. The theory follows the file: the enumerations and the
  two schema structs, the vocabulary table, \<open>Resolve\<close> with everything it calls,
  and \<open>Selfcheck\<close>. The documentation strings of the schema are left out.
\<close>

subsection \<open>Classes, kinds and scopes\<close>

text \<open>
  Each of these Go types is a string with a fixed set of declared constants; the
  last constructor stands for any other string, so that the fall-through branches
  of the code are branches of the model.
\<close>

datatype vclass = ClassMetadata | ClassPaths | ClassContent | ClassMutation | ClassOther string

datatype kind = KindInt | KindBool | KindString | KindDepotPath | KindOther string

datatype scope = ScopeNone | ScopeDepot | ScopeAllowedBuildTys | ScopeRepoAllowlist | ScopeOther string

record arg =
  arg_name :: string
  arg_kind :: kind
  required :: bool
  min_val :: int
  max_val :: int
  pattern :: "regex option"
  max_len :: int
  must_be_false :: bool
  arg_scope :: scope

text \<open>A composite literal that names only some fields leaves the others zero.\<close>

definition zero_arg :: "string \<Rightarrow> kind \<Rightarrow> arg" where
  "zero_arg n k =
     \<lparr>arg_name = n, arg_kind = k, required = False, min_val = 0, max_val = 0, pattern = None,
      max_len = 0, must_be_false = False, arg_scope = ScopeNone\<rparr>"

record verb =
  verb_name :: string
  verb_class :: vclass
  compiled :: bool
  mutating :: bool
  verb_args :: "arg list"
  default_max_bytes :: int
  verb_tool :: string

definition zero_verb :: "string \<Rightarrow> vclass \<Rightarrow> verb" where
  "zero_verb n c =
     \<lparr>verb_name = n, verb_class = c, compiled = False, mutating = False, verb_args = [],
      default_max_bytes = 0, verb_tool = []\<rparr>"

record scopes =
  depot_scope :: "string list"
  allowed_build_types :: "string list"
  repo_allowlist :: "string list"

subsection \<open>Denials\<close>

datatype deny_reason =
    ReasonUnknownVerb | ReasonVerbNotCompiled | ReasonToolNotConfigured | ReasonMalformedArgs
  | ReasonUnknownArgument | ReasonMissingArgument | ReasonArgumentType | ReasonArgumentRange
  | ReasonArgumentPattern | ReasonContentVerbOff | ReasonOutOfScopePath
  | ReasonOutOfScopeBuildTy | ReasonOutOfScopeRepo | ReasonDuplicateCommandID
  | ReasonDeadlineExceeded

fun reason_token :: "deny_reason \<Rightarrow> string" where
  "reason_token ReasonUnknownVerb = ''unknown_verb''"
| "reason_token ReasonVerbNotCompiled = ''verb_not_compiled''"
| "reason_token ReasonToolNotConfigured = ''tool_not_configured''"
| "reason_token ReasonMalformedArgs = ''malformed_args''"
| "reason_token ReasonUnknownArgument = ''unknown_argument''"
| "reason_token ReasonMissingArgument = ''missing_argument''"
| "reason_token ReasonArgumentType = ''argument_type''"
| "reason_token ReasonArgumentRange = ''argument_range''"
| "reason_token ReasonArgumentPattern = ''argument_pattern''"
| "reason_token ReasonContentVerbOff = ''content_verb_disabled''"
| "reason_token ReasonOutOfScopePath = ''out_of_scope_path''"
| "reason_token ReasonOutOfScopeBuildTy = ''out_of_scope_build_type''"
| "reason_token ReasonOutOfScopeRepo = ''out_of_scope_repo''"
| "reason_token ReasonDuplicateCommandID = ''duplicate_command_id''"
| "reason_token ReasonDeadlineExceeded = ''deadline_exceeded''"

text \<open>The reasons are finitely many, so a statement about all of them can be evaluated.\<close>

instantiation deny_reason :: enum
begin

definition enum_deny_reason :: "deny_reason list" where
  "enum_deny_reason =
     [ReasonUnknownVerb, ReasonVerbNotCompiled, ReasonToolNotConfigured, ReasonMalformedArgs,
      ReasonUnknownArgument, ReasonMissingArgument, ReasonArgumentType, ReasonArgumentRange,
      ReasonArgumentPattern, ReasonContentVerbOff, ReasonOutOfScopePath, ReasonOutOfScopeBuildTy,
      ReasonOutOfScopeRepo, ReasonDuplicateCommandID, ReasonDeadlineExceeded]"

definition enum_all_deny_reason :: "(deny_reason \<Rightarrow> bool) \<Rightarrow> bool" where
  "enum_all_deny_reason P \<longleftrightarrow> list_all P enum_class.enum"

definition enum_ex_deny_reason :: "(deny_reason \<Rightarrow> bool) \<Rightarrow> bool" where
  "enum_ex_deny_reason P \<longleftrightarrow> list_ex P enum_class.enum"

instance
proof
  have "q \<in> set enum_class.enum" for q :: deny_reason by (cases q) (simp_all add: enum_deny_reason_def)
  then show univ: "UNIV = set (enum_class.enum :: deny_reason list)" by blast
  show "distinct (enum_class.enum :: deny_reason list)" by (simp add: enum_deny_reason_def)
  show "enum_class.enum_all P \<longleftrightarrow> Ball UNIV P" for P :: "deny_reason \<Rightarrow> bool"
    unfolding enum_all_deny_reason_def univ by (simp add: list_all_iff)
  show "enum_class.enum_ex P \<longleftrightarrow> Bex UNIV P" for P :: "deny_reason \<Rightarrow> bool"
    unfolding enum_ex_deny_reason_def univ by (simp add: list_ex_iff)
qed

end

lemma reason_token_inj: "reason_token q = reason_token q' \<Longrightarrow> q = q'"
proof -
  have "\<forall>q q'. reason_token q = reason_token q' \<longrightarrow> q = q'" by code_simp
  then show "reason_token q = reason_token q' \<Longrightarrow> q = q'" by blast
qed

lemma reason_token_plain:
  "list_all (\<lambda>c. c = CHR ''_'' \<or> (CHR ''a'' \<le> c \<and> c \<le> CHR ''z'')) (reason_token q)"
proof -
  have "\<forall>q. list_all (\<lambda>c. c = CHR ''_'' \<or> (CHR ''a'' \<le> c \<and> c \<le> CHR ''z'')) (reason_token q)" by code_simp
  then show ?thesis by blast
qed

text \<open>
  A denial's detail is a \<open>Sprintf\<close> call: its format and arguments. The rendered
  text only ever reaches the local audit log; \<open>FErr\<close> is an error value whose text
  is the library's.
\<close>

datatype fmt_arg = FStr string | FInt int | FErr

type_synonym detail = "string \<times> fmt_arg list"

record deny_error =
  deny_reason :: deny_reason
  deny_detail :: detail

definition deny :: "deny_reason \<Rightarrow> string \<Rightarrow> fmt_arg list \<Rightarrow> deny_error" where
  "deny r fmt a = \<lparr>deny_reason = r, deny_detail = (fmt, a)\<rparr>"

lemma deny_reason_deny [simp]: "deny_reason (deny r fmt a) = r"
  by (simp add: deny_def)

subsection \<open>The vocabulary\<close>

definition bannedArgNames :: "(string \<times> string) list" where
  "bannedArgNames =
     [(''params'', ''Jenkins build parameters interpolate into shell build steps''),
      (''parameters'', ''same as params''),
      (''properties'', ''TeamCity properties are consumed by build steps''),
      (''env'', ''environment injection reaches build steps''),
      (''branchname'', ''branch names reach VCS checkout logic and build steps''),
      (''branch_name'', ''branch names reach VCS checkout logic and build steps''),
      (''comment'', ''free text on a queue request, no v0 need''),
      (''url'', ''a verb that takes a URL is a tunnel''),
      (''host'', ''a verb that takes a host is a tunnel''),
      (''port'', ''a verb that takes a port is a tunnel''),
      (''command'', ''a verb that takes a command is a shell''),
      (''script'', ''a verb that takes a script is a shell''),
      (''args'', ''a verb that takes an argv is a shell'')]"

definition alnum :: cclass where
  "alnum = [(CHR ''A'', CHR ''Z''), (CHR ''a'', CHR ''z''), (CHR ''0'', CHR ''9'')]"

definition reBuildTypeID :: regex where
  "reBuildTypeID = [(alnum @ [(CHR ''_'', CHR ''_'')], 1, 190)]"

definition reHexSHA :: regex where
  "reHexSHA = [([(CHR ''0'', CHR ''9''), (CHR ''a'', CHR ''f'')], 7, 64)]"

definition dotted :: cclass where
  "dotted = alnum @ [(CHR ''.'', CHR ''.''), (CHR ''_'', CHR ''_''), (CHR ''-'', CHR ''-'')]"

definition reJobName :: regex where
  "reJobName = [(dotted @ [(CHR ''/'', CHR ''/'')], 1, 190)]"

definition reRepo :: regex where
  "reRepo = (dotted, 1, 100) # lit ''/'' @ [(dotted, 1, 100)]"

definition sys_verbs :: "verb list" where
  "sys_verbs =
     [(zero_verb ''sys.ping'' ClassMetadata)\<lparr>compiled := True, default_max_bytes := 1024\<rparr>,
      (zero_verb ''sys.version'' ClassMetadata)\<lparr>compiled := True, default_max_bytes := 1024\<rparr>,
      (zero_verb ''sys.capabilities'' ClassMetadata)\<lparr>compiled := True, default_max_bytes := 8192\<rparr>]"

definition build_id_arg :: arg where
  "build_id_arg = (zero_arg ''build_id'' KindInt)\<lparr>required := True, min_val := 1, max_val := 2 ^ 40\<rparr>"

definition build_verb :: verb where
  "build_verb = (zero_verb ''teamcity.build.get'' ClassMetadata)
     \<lparr>compiled := True, verb_tool := ''teamcity'', default_max_bytes := 32768,
      verb_args := [build_id_arg]\<rparr>"

definition teamcity_verbs :: "verb list" where
  "teamcity_verbs =
     [(zero_verb ''teamcity.server.info'' ClassMetadata)
        \<lparr>compiled := True, verb_tool := ''teamcity'', default_max_bytes := 8192\<rparr>,
      build_verb,
      (zero_verb ''teamcity.build.queue'' ClassMutation)
        \<lparr>mutating := True, verb_tool := ''teamcity'',
         verb_args :=
           [(zero_arg ''build_type_id'' KindString)
              \<lparr>required := True, pattern := Some reBuildTypeID, max_len := 190,
               arg_scope := ScopeAllowedBuildTys\<rparr>]\<rparr>]"

definition describe_verb :: verb where
  "describe_verb = (zero_verb ''p4.describe'' ClassPaths)
     \<lparr>compiled := True, verb_tool := ''perforce'', default_max_bytes := 4 * 2 ^ 20,
      verb_args :=
        [(zero_arg ''change'' KindInt)\<lparr>required := True, min_val := 1, max_val := 2 ^ 40\<rparr>,
         (zero_arg ''max_files'' KindInt)\<lparr>min_val := 1, max_val := 100000\<rparr>,
         (zero_arg ''include_diff'' KindBool)\<lparr>must_be_false := True\<rparr>]\<rparr>"

definition changes_path :: arg where
  "changes_path = (zero_arg ''path'' KindDepotPath)
     \<lparr>required := True, arg_scope := ScopeDepot, max_len := 1024\<rparr>"

definition changes_max :: arg where
  "changes_max = (zero_arg ''max'' KindInt)\<lparr>min_val := 1, max_val := 200\<rparr>"

definition changes_verb :: verb where
  "changes_verb = (zero_verb ''p4.changes'' ClassPaths)
     \<lparr>compiled := True, verb_tool := ''perforce'', default_max_bytes := 2 ^ 20,
      verb_args := [changes_path, changes_max]\<rparr>"

definition perforce_verbs :: "verb list" where
  "perforce_verbs =
     [describe_verb, changes_verb,
      (zero_verb ''p4.file_contents'' ClassContent)
        \<lparr>verb_tool := ''perforce'',
         verb_args :=
           [(zero_arg ''depot_path'' KindDepotPath)
              \<lparr>required := True, arg_scope := ScopeDepot, max_len := 1024\<rparr>,
            (zero_arg ''rev'' KindInt)\<lparr>min_val := 1, max_val := 2 ^ 32\<rparr>,
            (zero_arg ''max_bytes'' KindInt)\<lparr>min_val := 1, max_val := 2 ^ 20\<rparr>]\<rparr>]"

definition reserved_verbs :: "verb list" where
  "reserved_verbs =
     [(zero_verb ''jenkins.build.trigger'' ClassMutation)
        \<lparr>mutating := True, verb_tool := ''jenkins'',
         verb_args :=
           [(zero_arg ''job'' KindString)
              \<lparr>required := True, max_len := 190, pattern := Some reJobName\<rparr>]\<rparr>,
      (zero_verb ''ghes.commit.get'' ClassPaths)
        \<lparr>verb_tool := ''ghes'',
         verb_args :=
           [(zero_arg ''repo'' KindString)
              \<lparr>required := True, arg_scope := ScopeRepoAllowlist, max_len := 190,
               pattern := Some reRepo\<rparr>,
            (zero_arg ''sha'' KindString)
              \<lparr>required := True, pattern := Some reHexSHA, max_len := 64\<rparr>]\<rparr>,
      (zero_verb ''horde.server.info'' ClassMetadata)\<lparr>verb_tool := ''horde''\<rparr>]"

definition Vocabulary :: "verb list" where
  "Vocabulary = sys_verbs @ teamcity_verbs @ perforce_verbs @ reserved_verbs"

lemmas [table_defs] = Vocabulary_def sys_verbs_def teamcity_verbs_def perforce_verbs_def
  reserved_verbs_def zero_verb_def zero_arg_def build_id_arg_def build_verb_def describe_verb_def
  changes_path_def changes_max_def changes_verb_def

text \<open>The lookup table. A duplicate name panics at start-up: \<^const>\<open>None\<close>.\<close>

fun build_index :: "verb list \<Rightarrow> (string \<rightharpoonup> verb) \<Rightarrow> (string \<rightharpoonup> verb) option" where
  "build_index [] m = Some m"
| "build_index (v # vs) m =
     (if m (verb_name v) \<noteq> None then None else build_index vs (m(verb_name v \<mapsto> v)))"

definition Lookup :: "string \<Rightarrow> verb option" where
  "Lookup name =
     (case build_index Vocabulary Map.empty of None \<Rightarrow> None | Some m \<Rightarrow> m name)"

definition CompiledVerbs :: "string list" where
  "CompiledVerbs = sort (map verb_name (filter compiled Vocabulary))"

subsection \<open>Selfcheck\<close>

datatype selfcheck_error =
    MutatingCompiled string
  | ContentCompiled string
  | ErrBannedArg string string string
  | NonScalarKind string string kind
  | UnboundedInt string string
  | UnboundedString string string

text \<open>One argument, then the arguments of a verb, then the verbs: the first failure wins.\<close>

definition check_arg :: "string \<Rightarrow> arg \<Rightarrow> selfcheck_error option" where
  "check_arg vn a =
     (case map_of bannedArgNames (ToLower (arg_name a)) of
        Some why \<Rightarrow> Some (ErrBannedArg vn (arg_name a) why)
      | None \<Rightarrow>
          if arg_kind a \<notin> {KindInt, KindBool, KindString, KindDepotPath}
            then Some (NonScalarKind vn (arg_name a) (arg_kind a))
          else if arg_kind a = KindInt \<and> max_val a \<le> 0 then Some (UnboundedInt vn (arg_name a))
          else if arg_kind a = KindString \<and> max_len a \<le> 0 then Some (UnboundedString vn (arg_name a))
          else None)"

fun check_args :: "string \<Rightarrow> arg list \<Rightarrow> selfcheck_error option" where
  "check_args vn [] = None"
| "check_args vn (a # as) =
     (case check_arg vn a of Some e \<Rightarrow> Some e | None \<Rightarrow> check_args vn as)"

fun Selfcheck_of :: "verb list \<Rightarrow> selfcheck_error option" where
  "Selfcheck_of [] = None"
| "Selfcheck_of (v # vs) =
     (if compiled v \<and> mutating v then Some (MutatingCompiled (verb_name v))
      else if compiled v \<and> verb_class v = ClassContent then Some (ContentCompiled (verb_name v))
      else (case check_args (verb_name v) (verb_args v) of
              Some e \<Rightarrow> Some e
            | None \<Rightarrow> Selfcheck_of vs))"

definition Selfcheck :: "selfcheck_error option" where
  "Selfcheck = Selfcheck_of Vocabulary"

text \<open>What the check is for, as a property of each verb.\<close>

definition arg_safe :: "arg \<Rightarrow> bool" where
  "arg_safe a \<longleftrightarrow>
     ToLower (arg_name a) \<notin> fst ` set bannedArgNames \<and>
     arg_kind a \<in> {KindInt, KindBool, KindString, KindDepotPath} \<and>
     (arg_kind a = KindInt \<longrightarrow> 0 < max_val a) \<and>
     (arg_kind a = KindString \<longrightarrow> 0 < max_len a)"

definition verb_safe :: "verb \<Rightarrow> bool" where
  "verb_safe v \<longleftrightarrow>
     (compiled v \<longrightarrow> \<not> mutating v \<and> verb_class v \<noteq> ClassContent) \<and>
     (\<forall>a \<in> set (verb_args v). arg_safe a)"

lemma check_arg_None_iff: "check_arg vn a = None \<longleftrightarrow> arg_safe a"
  by (auto simp: check_arg_def arg_safe_def map_of_eq_None_iff not_le
      simp flip: map_of_eq_None_iff split: option.splits)

lemma check_args_None_iff: "check_args vn as = None \<longleftrightarrow> (\<forall>a \<in> set as. arg_safe a)"
  by (induction as) (auto simp: check_arg_None_iff [of vn, symmetric] split: option.splits)

lemma Selfcheck_of_None_iff: "Selfcheck_of vs = None \<longleftrightarrow> (\<forall>v \<in> set vs. verb_safe v)"
proof (induction vs)
  case (Cons v vs)
  have "check_args (verb_name v) (verb_args v) = None \<longleftrightarrow> (\<forall>a \<in> set (verb_args v). arg_safe a)"
    by (rule check_args_None_iff)
  with Cons show ?case by (auto simp: verb_safe_def split: option.splits)
qed simp

lemma Vocabulary_safe: "v \<in> set Vocabulary \<Longrightarrow> verb_safe v"
proof -
  have "Selfcheck_of Vocabulary = None" by code_simp
  then show "v \<in> set Vocabulary \<Longrightarrow> verb_safe v" by (simp add: Selfcheck_of_None_iff)
qed

subsection \<open>Lookup\<close>

lemma build_index_lookup:
  assumes "distinct (map verb_name vs)" "\<forall>v \<in> set vs. m (verb_name v) = None"
  shows "\<exists>m'. build_index vs m = Some m' \<and>
    (\<forall>n. m' n = (case find (\<lambda>v. verb_name v = n) vs of Some v \<Rightarrow> Some v | None \<Rightarrow> m n))"
  using assms
proof (induction vs arbitrary: m)
  case (Cons v vs)
  let ?m = "m(verb_name v \<mapsto> v)"
  have "\<forall>w \<in> set vs. ?m (verb_name w) = None"
  proof
    fix w assume "w \<in> set vs"
    then have "verb_name w \<noteq> verb_name v" "m (verb_name w) = None"
      using Cons.prems by (auto simp: image_iff)
    then show "?m (verb_name w) = None" by simp
  qed
  moreover have "distinct (map verb_name vs)" using Cons.prems(1) by simp
  ultimately obtain m' where m': "build_index vs ?m = Some m'"
      "\<forall>n. m' n = (case find (\<lambda>v. verb_name v = n) vs of Some v \<Rightarrow> Some v | None \<Rightarrow> ?m n)"
    using Cons.IH [of ?m] by blast
  have nf: "find (\<lambda>w. verb_name w = verb_name v) vs = None"
    using Cons.prems(1) by (auto simp: find_None_iff image_iff)
  have "build_index (v # vs) m = Some m'" using m'(1) Cons.prems(2) by simp
  moreover have "m' n = (case find (\<lambda>v. verb_name v = n) (v # vs) of Some v \<Rightarrow> Some v | None \<Rightarrow> m n)" for n
    using m'(2) nf by (cases "n = verb_name v") (auto split: option.split)
  ultimately show ?case by blast
qed simp

lemma Vocabulary_distinct: "distinct (map verb_name Vocabulary)"
  by code_simp

lemma Lookup_eq: "Lookup n = find (\<lambda>v. verb_name v = n) Vocabulary"
proof -
  obtain m where m: "build_index Vocabulary Map.empty = Some m"
      "\<forall>n. m n = (case find (\<lambda>v. verb_name v = n) Vocabulary of Some v \<Rightarrow> Some v | None \<Rightarrow> None)"
    using build_index_lookup [OF Vocabulary_distinct, of Map.empty] by auto
  then show ?thesis by (simp add: Lookup_def split: option.splits)
qed

lemma Lookup_SomeD: "Lookup n = Some v \<Longrightarrow> v \<in> set Vocabulary \<and> verb_name v = n"
  by (metis (mono_tags, lifting) Lookup_eq find_Some_iff nth_mem)

lemma Lookup_in: "v \<in> set Vocabulary \<Longrightarrow> Lookup (verb_name v) = Some v"
proof -
  assume v: "v \<in> set Vocabulary"
  then obtain w where w: "Lookup (verb_name v) = Some w"
    by (cases "Lookup (verb_name v)") (auto simp: Lookup_eq find_None_iff)
  then have "w \<in> set Vocabulary" "verb_name w = verb_name v" using Lookup_SomeD by blast+
  then have "w = v" using v Vocabulary_distinct by (metis (no_types) distinct_map inj_onD)
  with w show ?thesis by simp
qed

lemma Lookup_live:
  "Lookup ''p4.describe'' = Some describe_verb"
  "Lookup ''p4.changes'' = Some changes_verb"
  "Lookup ''teamcity.build.get'' = Some build_verb"
  by (simp_all add: Lookup_eq table_defs)

lemma compiled_list:
  "map verb_name (filter compiled Vocabulary) =
     [''sys.ping'', ''sys.version'', ''sys.capabilities'', ''teamcity.server.info'',
      ''teamcity.build.get'', ''p4.describe'', ''p4.changes'']"
  by code_simp

lemma compiled_name_in:
  "v \<in> set Vocabulary \<Longrightarrow> compiled v \<Longrightarrow> verb_name v \<in>
     {''sys.ping'', ''sys.version'', ''sys.capabilities'', ''teamcity.server.info'',
      ''teamcity.build.get'', ''p4.describe'', ''p4.changes''}"
proof -
  assume "v \<in> set Vocabulary" "compiled v"
  then have "verb_name v \<in> set (map verb_name (filter compiled Vocabulary))" by simp
  then show ?thesis unfolding compiled_list by simp
qed

end
