(* ===== verification/Depot_Scope.thy ===== *)
theory Depot_Scope
  imports Vocab
begin

text \<open>
  The path half of \<open>internal/vocab/vocab.go\<close>: \<open>validateDepotPath\<close>,
  \<open>checkScope\<close>, \<open>literalPrefix\<close>, \<open>withinPrefixList\<close> and \<open>containsExact\<close>,
  and what they guarantee about the depot files a path can name.
\<close>

subsection \<open>The operations\<close>

definition validateDepotPath :: "string \<Rightarrow> string \<Rightarrow> deny_error option" where
  "validateDepotPath name s =
     (if \<not> HasPrefix s ''//'' then
        Some (deny ReasonArgumentPattern ''%s must be a depot path beginning //'' [FStr name])
      else if ContainsAny s ''@#%'' then
        Some (deny ReasonArgumentPattern ''%s may not carry a revision specifier'' [FStr name])
      else if list_ex (\<lambda>seg. seg = ''..'' \<or> seg = ''.'') (Split (TrimPrefix s ''//'') CHR ''/'') then
        Some (deny ReasonArgumentPattern ''%s may not contain a traversal segment'' [FStr name])
      else None)"

definition literalPrefix :: "string \<Rightarrow> string" where
  "literalPrefix s =
     (case IndexAny s ''*.'' of
        None \<Rightarrow> s
      | Some i \<Rightarrow>
          if s ! i = CHR ''.'' then
            (case Index s ''...'' of
               Some j \<Rightarrow> take j s
             | None \<Rightarrow> (case IndexByte s CHR ''*'' of Some k \<Rightarrow> take k s | None \<Rightarrow> s))
          else take i s)"

fun withinPrefixList :: "string \<Rightarrow> string list \<Rightarrow> bool" where
  "withinPrefixList s [] = False"
| "withinPrefixList s (p # ps) =
     (if \<not> HasSuffix p ''/'' then withinPrefixList s ps
      else if s = TrimSuffix p ''/'' \<or> HasPrefix s p then True
      else withinPrefixList s ps)"

fun containsExact :: "string \<Rightarrow> string list \<Rightarrow> bool" where
  "containsExact s [] = False"
| "containsExact s (v # vs) = (if v = s then True else containsExact s vs)"

definition checkScope :: "arg \<Rightarrow> string \<Rightarrow> scopes \<Rightarrow> deny_error option" where
  "checkScope a s sc =
     (case arg_scope a of
        ScopeNone \<Rightarrow> None
      | ScopeDepot \<Rightarrow>
          if \<not> withinPrefixList (literalPrefix s) (depot_scope sc) then
            Some (deny ReasonOutOfScopePath ''%s is outside depot_scope'' [FStr (arg_name a)])
          else None
      | ScopeAllowedBuildTys \<Rightarrow>
          if \<not> containsExact s (allowed_build_types sc) then
            Some (deny ReasonOutOfScopeBuildTy ''%s is not in allowed_build_types'' [FStr (arg_name a)])
          else None
      | ScopeRepoAllowlist \<Rightarrow>
          if \<not> containsExact s (repo_allowlist sc) then
            Some (deny ReasonOutOfScopeRepo ''%s is not in repo_allowlist'' [FStr (arg_name a)])
          else None
      | ScopeOther _ \<Rightarrow>
          Some (deny ReasonOutOfScopePath ''%s has an unknown scope'' [FStr (arg_name a)]))"

subsection \<open>Their meaning\<close>

lemma containsExact_iff: "containsExact s vs \<longleftrightarrow> s \<in> set vs"
  by (induction vs) auto

definition in_scope_of :: "string \<Rightarrow> string \<Rightarrow> bool" where
  "in_scope_of p s \<longleftrightarrow> HasSuffix p ''/'' \<and> (s @ ''/'' = p \<or> HasPrefix s p)"

lemma withinPrefixList_iff: "withinPrefixList s ps \<longleftrightarrow> (\<exists>p \<in> set ps. in_scope_of p s)"
proof (induction ps)
  case (Cons p ps)
  have "s = TrimSuffix p ''/'' \<longleftrightarrow> s @ ''/'' = p" if "HasSuffix p ''/''"
    using that by (auto simp: HasSuffix_iff)
  with Cons show ?case by (auto simp: in_scope_of_def)
qed simp

lemma withinPrefixList_Nil [simp]: "\<not> withinPrefixList s []"
  by simp

text \<open>
  The segment boundary: a scope entry never admits a sibling whose name merely
  starts with the scope's last segment.
\<close>

lemma in_scope_boundary:
  "in_scope_of (q @ ''/'') (q @ r) \<Longrightarrow> r = [] \<or> hd r = CHR ''/''"
  by (auto simp: in_scope_of_def HasPrefix_iff)

definition wildcard_free :: "string \<Rightarrow> bool" where
  "wildcard_free s \<longleftrightarrow> CHR ''*'' \<notin> set s \<and> \<not> Contains s ''...''"

lemma literalPrefix_prefix: "HasPrefix s (literalPrefix s)"
  by (auto simp: literalPrefix_def HasPrefix_iff [of s s] split: option.splits)

lemma literalPrefix_no_dots: "\<not> Contains (literalPrefix s) ''...''"
proof -
  have trunc: "\<not> Contains (take j s) ''...''" if "\<not> Contains s ''...''" for j
    using that Contains_take by blast
  have first: "\<not> Contains (take j s) ''...''" if j: "Index s ''...'' = Some j" for j
  proof
    assume "Contains (take j s) ''...''"
    then obtain a b where ab: "take j s = a @ ''...'' @ b" by (auto simp: Contains_iff)
    then have "s = a @ ''...'' @ b @ drop j s" by (metis append.assoc append_take_drop_id)
    then have "HasPrefix (drop (length a) s) ''...''" by (metis HasPrefix_append append_eq_conv_conj)
    moreover have "length a < j"
      using arg_cong [OF ab, of length] by (auto simp: min_def split: if_splits)
    ultimately show False using Index_SomeD [OF j] by blast
  qed
  have dots: "CHR ''.'' \<in> set s" if "Contains s ''...''" for s
    using that by (auto simp: Contains_iff)
  show ?thesis
  proof (cases "IndexAny s ''*.''")
    case None
    then have "CHR ''.'' \<notin> set s" by (auto simp: IndexAny_None_iff)
    with None show ?thesis using dots by (auto simp: literalPrefix_def)
  next
    case (Some i)
    have "CHR ''.'' \<notin> set (take i s)" using IndexAny_SomeD [OF Some] by auto
    then have "\<not> Contains (take i s) ''...''" using dots by blast
    with Some first trunc show ?thesis
      by (auto simp: literalPrefix_def Contains_def split: option.splits)
  qed
qed

text \<open>
  Where no \<open>*\<close> stands before the first \<open>...\<close>, the result is exactly the text
  before the first wildcard: it holds none, and what follows starts with one.
\<close>

lemma literalPrefix_exact:
  assumes "CHR ''*'' \<notin> set (literalPrefix s)"
  shows "wildcard_free (literalPrefix s)"
    and "literalPrefix s = s \<or> (\<exists>r. s = literalPrefix s @ r \<and> (HasPrefix r ''*'' \<or> HasPrefix r ''...''))"
proof -
  show "wildcard_free (literalPrefix s)"
    using assms literalPrefix_no_dots by (simp add: wildcard_free_def)
  have split: "s = take i s @ drop i s" for i by simp
  show "literalPrefix s = s \<or> (\<exists>r. s = literalPrefix s @ r \<and> (HasPrefix r ''*'' \<or> HasPrefix r ''...''))"
  proof (cases "IndexAny s ''*.''")
    case None
    then show ?thesis by (simp add: literalPrefix_def)
  next
    case (Some i)
    note i = IndexAny_SomeD [OF Some]
    consider (star) "s ! i \<noteq> CHR ''.''" | (dots) j where "s ! i = CHR ''.''" "Index s ''...'' = Some j"
      | (late) k where "s ! i = CHR ''.''" "Index s ''...'' = None" "IndexByte s CHR ''*'' = Some k"
      | (none) "s ! i = CHR ''.''" "Index s ''...'' = None" "IndexByte s CHR ''*'' = None"
      by (cases "Index s ''...''"; cases "IndexByte s CHR ''*''") auto
    then show ?thesis
    proof cases
      case star
      then have "drop i s = CHR ''*'' # drop (Suc i) s" using i Cons_nth_drop_Suc [of i s] by auto
      then show ?thesis using star Some split [of i] by (auto simp: literalPrefix_def)
    next
      case dots
      then show ?thesis using Index_SomeD [OF dots(2)] Some split [of j]
        by (auto simp: literalPrefix_def)
    next
      case late
      then have "drop k s = CHR ''*'' # drop (Suc k) s"
        using IndexByte_SomeD [OF late(3)] Cons_nth_drop_Suc [of k s] by auto
      then show ?thesis using late Some split [of k] by (auto simp: literalPrefix_def)
    next
      case none
      then show ?thesis using Some by (simp add: literalPrefix_def)
    qed
  qed
qed

text \<open>In front of the end of the literal prefix no \<open>...\<close> begins, in the whole path.\<close>

lemma literalPrefix_no_dots_at: "i < length (literalPrefix s) \<Longrightarrow> \<not> HasPrefix (drop i s) ''...''"
proof
  assume i: "i < length (literalPrefix s)" and d: "HasPrefix (drop i s) ''...''"
  from i have len: "i < length s" by (auto simp: literalPrefix_def split: option.splits if_splits)
  then have dot: "s ! i = CHR ''.''" using d by (auto simp: HasPrefix_iff Cons_nth_drop_Suc [symmetric])
  show False
  proof (cases "IndexAny s ''*.''")
    case None
    then show False using dot nth_mem [OF len] by (auto simp: IndexAny_None_iff)
  next
    case (Some k)
    note k = IndexAny_SomeD [OF Some]
    have "CHR ''.'' \<in> set (take k s)" if "i < k"
      using that k dot by (auto simp: in_set_conv_nth intro!: exI [of _ i])
    then have ki: "k \<le> i" using k by force
    have "Index s ''...'' \<noteq> None" using d len unfolding Index_None_iff by (meson less_imp_le)
    then obtain j where j: "Index s ''...'' = Some j" by blast
    then have "j \<le> i" using Index_SomeD [OF j] d by (meson not_le)
    then show False using i Some j k ki by (auto simp: literalPrefix_def split: if_splits)
  qed
qed

lemma literalPrefix_glued:
  assumes "wildcard_free r" "r \<noteq> []" "last r \<noteq> CHR ''.''"
  shows "literalPrefix (r @ ''...'') = r"
proof -
  have none: "\<not> HasPrefix (drop j (r @ ''...'')) ''...''" if j: "j < length r" for j
  proof
    assume p: "HasPrefix (drop j (r @ ''...'')) ''...''"
    then have p': "HasPrefix (drop j r @ ''...'') ''...''" using j by simp
    obtain a b where ab: "drop j r = a # b" using j by (cases "drop j r") auto
    show False
    proof (cases "\<exists>c d e. b = c # d # e")
      case True
      then have "HasPrefix (drop j r) ''...''" using p' ab by auto
      then obtain t where "drop j r = ''...'' @ t" by (auto simp: HasPrefix_iff)
      then have "r = take j r @ ''...'' @ t" by (metis append_take_drop_id)
      then show False using assms(1) by (auto simp: wildcard_free_def Contains_iff)
    next
      case False
      then have "last (drop j r) = CHR ''.''" using p' ab by (cases b; cases "tl b") auto
      then show False using assms(3) j by simp
    qed
  qed
  have ix: "Index (r @ ''...'') ''...'' = Some (length r)"
  proof (cases "Index (r @ ''...'') ''...''")
    case None
    then have "\<not> HasPrefix (drop (length r) (r @ ''...'')) ''...''"
      unfolding Index_None_iff by (metis length_append le_add1)
    then show ?thesis by simp
  next
    case (Some j)
    from Index_SomeD [OF Some] have "HasPrefix (drop j (r @ ''...'')) ''...''"
      "\<forall>i < j. \<not> HasPrefix (drop i (r @ ''...'')) ''...''" by blast+
    then have "\<not> j < length r" "\<not> length r < j" using none by auto
    then show ?thesis using Some by simp
  qed
  obtain k where k: "IndexAny (r @ ''...'') ''*.'' = Some k"
    by (cases "IndexAny (r @ ''...'') ''*.''") (auto simp: IndexAny_None_iff)
  have "(r @ ''...'') ! k \<in> set (r @ ''...'')" using IndexAny_SomeD [OF k] by (metis nth_mem)
  moreover have "CHR ''*'' \<notin> set (r @ ''...'')" using assms(1) by (simp add: wildcard_free_def)
  ultimately have "(r @ ''...'') ! k = CHR ''.''" using IndexAny_SomeD [OF k] by auto
  then show ?thesis by (simp add: literalPrefix_def k ix)
qed

end
