(* ===== verification/Resolve.thy ===== *)
theory Resolve
  imports Depot_Scope
begin

text \<open>
  The decision of \<open>internal/vocab/vocab.go\<close>: \<open>Arg.validate\<close>,
  \<open>Verb.validateArgs\<close> and \<open>Resolve\<close>. The raw arguments are the bytes of the
  frame's \<open>args\<close> value; a validated argument map sends a name to an integer, a
  boolean or a string, as the Go map's \<open>any\<close> values do.
\<close>

datatype argval = VInt int | VBool bool | VString string

type_synonym argmap = "string \<rightharpoonup> argval"

subsection \<open>One argument\<close>

definition validateInt :: "arg \<Rightarrow> string \<Rightarrow> deny_error + argval" where
  "validateInt a raw =
     (case decode_next raw of
        Some (JNum n, _) \<Rightarrow>
          (case ParseInt n of
             None \<Rightarrow> Inl (deny ReasonArgumentType ''%s must be an integer, not %s''
                            [FStr (arg_name a), FStr n])
           | Some i \<Rightarrow>
               if i < min_val a \<or> i > max_val a then
                 Inl (deny ReasonArgumentRange ''%s must be between %d and %d''
                        [FStr (arg_name a), FInt (min_val a), FInt (max_val a)])
               else Inr (VInt i))
      | _ \<Rightarrow> Inl (deny ReasonArgumentType ''%s must be an integer'' [FStr (arg_name a)]))"

text \<open>
  \<open>json.Unmarshal\<close> into a \<open>bool\<close> or \<open>string\<close> variable that starts at its
  zero value: \<open>null\<close> leaves it there, and is no error.
\<close>

definition unmarshal_into :: "(json \<Rightarrow> 'a assign) \<Rightarrow> 'a \<Rightarrow> string \<Rightarrow> 'a option" where
  "unmarshal_into f zero raw =
     (case json_parse raw of
        None \<Rightarrow> None
      | Some v \<Rightarrow> (case f v of Assign x \<Rightarrow> Some x | KeepOld \<Rightarrow> Some zero | TypeError \<Rightarrow> None))"

definition validateBool :: "arg \<Rightarrow> string \<Rightarrow> deny_error + argval" where
  "validateBool a raw =
     (case unmarshal_into as_bool False raw of
        None \<Rightarrow> Inl (deny ReasonArgumentType ''%s must be a boolean'' [FStr (arg_name a)])
      | Some b \<Rightarrow>
          if must_be_false a \<and> b then
            Inl (deny ReasonContentVerbOff ''%s cannot be enabled in protocol v0'' [FStr (arg_name a)])
          else Inr (VBool b))"

definition check_pattern :: "arg \<Rightarrow> string \<Rightarrow> deny_error option" where
  "check_pattern a s =
     (case pattern a of
        None \<Rightarrow> None
      | Some re \<Rightarrow>
          if MatchString re s then None
          else Some (deny ReasonArgumentPattern ''%s does not match the required form''
                       [FStr (arg_name a)]))"

definition validateString :: "arg \<Rightarrow> string \<Rightarrow> scopes \<Rightarrow> deny_error + argval" where
  "validateString a raw sc =
     (case unmarshal_into as_string [] raw of
        None \<Rightarrow> Inl (deny ReasonArgumentType ''%s must be a string'' [FStr (arg_name a)])
      | Some s \<Rightarrow>
          if max_len a > 0 \<and> int (length s) > max_len a then
            Inl (deny ReasonArgumentRange ''%s exceeds %d bytes'' [FStr (arg_name a), FInt (max_len a)])
          else if ContainsAny s [CHR 0x00, CHR 0x0A, CHR 0x0D] then
            Inl (deny ReasonArgumentPattern ''%s contains a control character'' [FStr (arg_name a)])
          else (case (if arg_kind a = KindDepotPath then validateDepotPath (arg_name a) s else None) of
            Some e \<Rightarrow> Inl e
          | None \<Rightarrow>
              (case check_pattern a s of
                 Some e \<Rightarrow> Inl e
               | None \<Rightarrow> (case checkScope a s sc of Some e \<Rightarrow> Inl e | None \<Rightarrow> Inr (VString s)))))"

definition validate :: "arg \<Rightarrow> string \<Rightarrow> scopes \<Rightarrow> deny_error + argval" where
  "validate a raw sc =
     (case arg_kind a of
        KindInt \<Rightarrow> validateInt a raw
      | KindBool \<Rightarrow> validateBool a raw
      | KindString \<Rightarrow> validateString a raw sc
      | KindDepotPath \<Rightarrow> validateString a raw sc
      | KindOther _ \<Rightarrow> Inl (deny ReasonArgumentType ''%s has no validator'' [FStr (arg_name a)]))"

subsection \<open>All arguments\<close>

text \<open>
  The loop over the schema. Go iterates the unknown-key check over a map, in no
  particular order; the model takes the order of the text, which only decides the
  key the local detail names.
\<close>

fun validate_loop :: "string \<Rightarrow> arg list \<Rightarrow> (string \<times> string) list \<Rightarrow> scopes \<Rightarrow> argmap \<Rightarrow> deny_error + argmap" where
  "validate_loop vn [] supplied sc out = Inr out"
| "validate_loop vn (a # as) supplied sc out =
     (case last_of supplied (arg_name a) of
        None \<Rightarrow>
          if required a then Inl (deny ReasonMissingArgument ''%s requires %q'' [FStr vn, FStr (arg_name a)])
          else validate_loop vn as supplied sc out
      | Some raw \<Rightarrow>
          (case validate a raw sc of
             Inl e \<Rightarrow> Inl e
           | Inr v \<Rightarrow> validate_loop vn as supplied sc (out(arg_name a \<mapsto> v))))"

definition supplied_args :: "string \<Rightarrow> (string \<times> string) list option" where
  "supplied_args raw = (if raw \<noteq> [] \<and> raw \<noteq> ''null'' then decode_raw_map raw else Some [])"

definition validateArgs :: "verb \<Rightarrow> string \<Rightarrow> scopes \<Rightarrow> deny_error + argmap" where
  "validateArgs v raw sc =
     (case supplied_args raw of
        None \<Rightarrow> Inl (deny ReasonMalformedArgs ''args is not a JSON object: %v'' [FErr])
      | Some supplied \<Rightarrow>
          (case find (\<lambda>k. k \<notin> set (map arg_name (verb_args v))) (map fst supplied) of
             Some k \<Rightarrow> Inl (deny ReasonUnknownArgument ''%s does not accept %q'' [FStr (verb_name v), FStr k])
           | None \<Rightarrow> validate_loop (verb_name v) (verb_args v) supplied sc Map.empty))"

subsection \<open>Resolve\<close>

definition Resolve :: "string \<Rightarrow> string \<Rightarrow> scopes \<Rightarrow> (string \<Rightarrow> bool) \<Rightarrow> deny_error + (verb \<times> argmap)" where
  "Resolve name raw sc tools =
     (case Lookup name of
        None \<Rightarrow> Inl (deny ReasonUnknownVerb ''%q is not in the vocabulary'' [FStr name])
      | Some v \<Rightarrow>
          if \<not> compiled v then
            Inl (deny ReasonVerbNotCompiled ''%q is reserved but not compiled into this build'' [FStr name])
          else if verb_class v = ClassContent then
            Inl (deny ReasonContentVerbOff ''%q is a content-class verb'' [FStr name])
          else if verb_tool v \<noteq> [] \<and> \<not> tools (verb_tool v) then
            Inl (deny ReasonToolNotConfigured ''no %s section in connector.yml'' [FStr (verb_tool v)])
          else (case validateArgs v raw sc of Inl e \<Rightarrow> Inl e | Inr args \<Rightarrow> Inr (v, args)))"

subsection \<open>What an accepted argument satisfies\<close>

definition value_ok :: "arg \<Rightarrow> scopes \<Rightarrow> argval \<Rightarrow> bool" where
  "value_ok a sc x \<longleftrightarrow>
     (case x of
        VInt i \<Rightarrow> arg_kind a = KindInt \<and> min_val a \<le> i \<and> i \<le> max_val a
      | VBool b \<Rightarrow> arg_kind a = KindBool \<and> (must_be_false a \<longrightarrow> \<not> b)
      | VString s \<Rightarrow>
          arg_kind a \<in> {KindString, KindDepotPath} \<and>
          (0 < max_len a \<longrightarrow> int (length s) \<le> max_len a) \<and>
          set s \<inter> {CHR 0x00, CHR 0x0A, CHR 0x0D} = {} \<and>
          (arg_kind a = KindDepotPath \<longrightarrow> validateDepotPath (arg_name a) s = None) \<and>
          check_pattern a s = None \<and>
          checkScope a s sc = None)"

lemma validateInt_InrD: "validateInt a raw = Inr x \<Longrightarrow> \<exists>i. x = VInt i \<and> min_val a \<le> i \<and> i \<le> max_val a"
  by (auto simp: validateInt_def split: option.splits json.splits if_splits)

lemma validateBool_InrD: "validateBool a raw = Inr x \<Longrightarrow> \<exists>b. x = VBool b \<and> (must_be_false a \<longrightarrow> \<not> b)"
  by (auto simp: validateBool_def split: option.splits if_splits)

lemma validateString_InrD:
  assumes "validateString a raw sc = Inr x" "arg_kind a \<in> {KindString, KindDepotPath}"
  shows "\<exists>s. x = VString s \<and> value_ok a sc (VString s)"
  using assms by (auto simp: validateString_def value_ok_def ContainsAny_iff split: option.splits if_splits)

lemma validate_ok: "validate a raw sc = Inr x \<Longrightarrow> value_ok a sc x"
  by (auto simp: validate_def value_ok_def dest!: validateInt_InrD validateBool_InrD validateString_InrD
      split: kind.splits)

lemma validate_loop_ok:
  assumes "validate_loop vn as supplied sc out = Inr m" "distinct (map arg_name as)"
  shows "m n = (case find (\<lambda>a. arg_name a = n) as of
      None \<Rightarrow> out n
    | Some a \<Rightarrow> (case last_of supplied n of
        None \<Rightarrow> out n
      | Some raw \<Rightarrow> (case validate a raw sc of Inl _ \<Rightarrow> None | Inr x \<Rightarrow> Some x)))"
  using assms
proof (induction as arbitrary: out)
  case (Cons a as)
  have nf: "find (\<lambda>b. arg_name b = arg_name a) as = None"
    using Cons.prems(2) by (auto simp: find_None_iff image_iff)
  show ?case
  proof (cases "last_of supplied (arg_name a)")
    case None
    then have "validate_loop vn as supplied sc out = Inr m" using Cons.prems(1) by (auto split: if_splits)
    from Cons.IH [OF this] Cons.prems(2) None nf show ?thesis by (cases "n = arg_name a") auto
  next
    case (Some raw)
    then obtain x where x: "validate a raw sc = Inr x"
        "validate_loop vn as supplied sc (out(arg_name a \<mapsto> x)) = Inr m"
      using Cons.prems(1) by (auto split: sum.splits)
    from Cons.IH [OF x(2)] Cons.prems(2) Some x(1) nf show ?thesis
      by (cases "n = arg_name a") (auto split: option.split)
  qed
qed simp

lemma validate_loop_required:
  assumes "validate_loop vn as supplied sc out = Inr m" "a \<in> set as"
  shows "required a \<Longrightarrow> last_of supplied (arg_name a) \<noteq> None"
    and "last_of supplied (arg_name a) = Some raw \<Longrightarrow> \<exists>x. validate a raw sc = Inr x"
  using assms by (induction as arbitrary: out) (auto split: option.splits sum.splits if_splits)

lemma validate_loop_InrI:
  assumes "\<And>a. a \<in> set as \<Longrightarrow> required a \<Longrightarrow> last_of supplied (arg_name a) \<noteq> None"
    and "\<And>a raw. a \<in> set as \<Longrightarrow> last_of supplied (arg_name a) = Some raw \<Longrightarrow> is_ok (validate a raw sc)"
  shows "\<exists>m. validate_loop vn as supplied sc out = Inr m"
  using assms
proof (induction as arbitrary: out)
  case (Cons a as)
  show ?case
  proof (cases "last_of supplied (arg_name a)")
    case None
    with Cons.prems(1) [of a] Cons.IH [of out] Cons.prems show ?thesis by auto
  next
    case (Some raw)
    with Cons.prems(2) [of a raw] obtain x where "validate a raw sc = Inr x" by (auto simp: is_ok_iff)
    moreover obtain m where "validate_loop vn as supplied sc (out(arg_name a \<mapsto> x)) = Inr m"
      using Cons.IH [of "out(arg_name a \<mapsto> x)"] Cons.prems by (meson list.set_intros(2))
    ultimately show ?thesis using Some by (simp del: fun_upd_apply)
  qed
qed simp

lemma Vocabulary_args_distinct: "v \<in> set Vocabulary \<Longrightarrow> distinct (map arg_name (verb_args v))"
proof -
  have "list_all (\<lambda>v. distinct (map arg_name (verb_args v))) Vocabulary" by code_simp
  then show "v \<in> set Vocabulary \<Longrightarrow> distinct (map arg_name (verb_args v))" by (simp add: list_all_iff)
qed

text \<open>Inversion of an accepted command: the one fact the properties start from.\<close>

lemma Resolve_InrD:
  assumes "Resolve name raw sc tools = Inr (v, m)"
  obtains supplied where
    "Lookup name = Some v" "v \<in> set Vocabulary" "verb_name v = name"
    "compiled v" "verb_class v \<noteq> ClassContent" "verb_tool v = [] \<or> tools (verb_tool v)"
    "supplied_args raw = Some supplied"
    "fst ` set supplied \<subseteq> arg_name ` set (verb_args v)"
    "validate_loop name (verb_args v) supplied sc Map.empty = Inr m"
proof -
  from assms have l: "Lookup name = Some v" "compiled v" "verb_class v \<noteq> ClassContent"
      "verb_tool v = [] \<or> tools (verb_tool v)" "validateArgs v raw sc = Inr m"
    by (auto simp: Resolve_def split: option.splits if_splits sum.splits)
  then have v: "v \<in> set Vocabulary" "verb_name v = name" using Lookup_SomeD by blast+
  from l(5) obtain supplied where "supplied_args raw = Some supplied"
      "find (\<lambda>k. k \<notin> set (map arg_name (verb_args v))) (map fst supplied) = None"
      "validate_loop (verb_name v) (verb_args v) supplied sc Map.empty = Inr m"
    by (auto simp: validateArgs_def split: option.splits)
  with l v that show thesis by (fastforce simp: find_None_iff)
qed

lemma Resolve_value:
  assumes "Resolve name raw sc tools = Inr (v, m)" "m n = Some x"
  shows "\<exists>a \<in> set (verb_args v). arg_name a = n \<and> value_ok a sc x"
proof -
  from assms(1) obtain supplied where s: "v \<in> set Vocabulary"
      "validate_loop name (verb_args v) supplied sc Map.empty = Inr m"
    by (rule Resolve_InrD)
  from validate_loop_ok [OF s(2) Vocabulary_args_distinct [OF s(1)], of n] assms(2)
  obtain a raw' where a: "find (\<lambda>a. arg_name a = n) (verb_args v) = Some a" "validate a raw' sc = Inr x"
    by (auto split: option.splits sum.splits)
  then have "a \<in> set (verb_args v)" "arg_name a = n" by (auto simp: find_Some_iff)
  with validate_ok [OF a(2)] show ?thesis by blast
qed

end
