(* ===== verification/Go_Json_Encode.thy ===== *)
theory Go_Json_Encode
  imports Go_Json
begin

text \<open>
  \<open>json.Marshal\<close> of strings and objects: the string literal with HTML escaping and
  UTF-8 repair. The two facts the components use: an encoded string holds no
  control character (so a JSON line is one line), and decoding gives the string
  back when it was valid UTF-8.
\<close>

definition hex_digit :: "nat \<Rightarrow> char" where
  "hex_digit n = (if n < 10 then char_of (48 + n) else char_of (87 + n))"

definition ascii_escape :: "char \<Rightarrow> string" where
  "ascii_escape c =
     (if c = CHR 0x22 \<or> c = CHR 0x5C then [CHR 0x5C, c]
      else if c = CHR 0x08 then [CHR 0x5C, CHR ''b'']
      else if c = CHR 0x0C then [CHR 0x5C, CHR ''f'']
      else if c = CHR 0x0A then [CHR 0x5C, CHR ''n'']
      else if c = CHR 0x0D then [CHR 0x5C, CHR ''r'']
      else if c = CHR 0x09 then [CHR 0x5C, CHR ''t'']
      else if byte c < 0x20 \<or> c = CHR ''<'' \<or> c = CHR ''>'' \<or> c = CHR ''&'' then
        CHR 0x5C # ''u00'' @ [hex_digit (byte c div 16), hex_digit (byte c mod 16)]
      else [c])"

definition rune_escape :: "string \<Rightarrow> string" where
  "rune_escape r =
     (if r = [CHR 0xE2, CHR 0x80, CHR 0xA8] then CHR 0x5C # ''u2028''
      else if r = [CHR 0xE2, CHR 0x80, CHR 0xA9] then CHR 0x5C # ''u2029''
      else r)"

function quote_body :: "string \<Rightarrow> string" where
  "quote_body s =
     (case s of
        [] \<Rightarrow> []
      | c # r \<Rightarrow>
          if byte c < 0x80 then ascii_escape c @ quote_body r
          else if rune_len s = 0 then (CHR 0x5C # ''ufffd'') @ quote_body r
          else rune_escape (take (rune_len s) s) @ quote_body (drop (rune_len s) s))"
  by pat_completeness auto
termination
  by (relation "measure length") auto

declare quote_body.simps [simp del]

definition quote_json :: "string \<Rightarrow> string" where
  "quote_json s = CHR 0x22 # quote_body s @ [CHR 0x22]"

text \<open>An object from already encoded values, in field order.\<close>

fun join_members :: "(string \<times> string) list \<Rightarrow> string" where
  "join_members [] = []"
| "join_members [(k, v)] = quote_json k @ CHR '':'' # v"
| "join_members ((k, v) # ms) = quote_json k @ CHR '':'' # v @ CHR '','' # join_members ms"

definition json_object :: "(string \<times> string) list \<Rightarrow> string" where
  "json_object ms = CHR ''{'' # join_members ms @ ''}''"

subsection \<open>No control characters\<close>

definition printable :: "string \<Rightarrow> bool" where
  "printable s \<longleftrightarrow> list_all (\<lambda>c. 0x20 \<le> byte c) s"

lemma printable_append [simp]: "printable (s @ t) \<longleftrightarrow> printable s \<and> printable t"
  by (simp add: printable_def)

lemma printable_Nil [simp]: "printable []"
  by (simp add: printable_def)

lemma printable_Cons: "printable (c # s) \<longleftrightarrow> 0x20 \<le> byte c \<and> printable s"
  by (simp add: printable_def)

lemma byte_hex_digit: "n < 16 \<Longrightarrow> 0x20 \<le> byte (hex_digit n)"
  by (auto simp: hex_digit_def)

lemma printable_ascii_escape: "printable (ascii_escape c)"
proof -
  have "byte c < 256" by (rule nat_of_char_less_256)
  then have "byte c div 16 < 16" "byte c mod 16 < 16" by (simp_all add: div_less_iff_less_mult)
  then show ?thesis
    by (auto simp: ascii_escape_def printable_def byte_hex_digit)
qed

lemma rune_len_conts:
  assumes "rune_len (c # r) \<noteq> 0" "0x80 \<le> byte c"
  shows "conts (rune_len (c # r) - 1) r"
proof -
  define y where "y = (case r of [] \<Rightarrow> 0 | b # _ \<Rightarrow> byte b)"
  show ?thesis
    using assms unfolding rune_len.simps Let_def y_def [symmetric]
    by (auto simp: conts_def split: if_splits)
qed

lemma rune_bytes_high:
  assumes "rune_len (c # r) \<noteq> 0" "0x80 \<le> byte c" "d \<in> set (take (rune_len (c # r)) (c # r))"
  shows "0x80 \<le> byte d"
proof -
  from assms(1) obtain k where k: "rune_len (c # r) = Suc k" by (cases "rune_len (c # r)") auto
  have "\<forall>e \<in> set (take k r). 0x80 \<le> byte e"
    using rune_len_conts [OF assms(1,2)] by (simp add: k conts_def list_all_iff)
  moreover have "d = c \<or> d \<in> set (take k r)" using assms(3) by (simp add: k)
  ultimately show ?thesis using assms(2) by auto
qed

lemma printable_quote_body: "printable (quote_body s)"
proof (induction s rule: quote_body.induct)
  case (1 s)
  show ?case
  proof (cases s)
    case Nil
    then show ?thesis by (simp add: quote_body.simps)
  next
    case (Cons c r)
    have "printable (take (rune_len s) s)" if "\<not> byte c < 0x80" "rune_len s \<noteq> 0"
      unfolding printable_def list_all_iff
    proof
      fix d assume "d \<in> set (take (rune_len s) s)"
      then have "0x80 \<le> byte d" using rune_bytes_high [of c r d] that Cons by simp
      then show "0x20 \<le> byte d" by simp
    qed
    then have "printable (rune_escape (take (rune_len s) s))" if "\<not> byte c < 0x80" "rune_len s \<noteq> 0"
      using that by (auto simp: rune_escape_def printable_Cons)
    then show ?thesis using 1 Cons printable_ascii_escape [of c]
      by (subst quote_body.simps) (auto simp: printable_Cons)
  qed
qed

lemma printable_quote_json: "printable (quote_json s)"
  by (simp add: quote_json_def printable_Cons printable_quote_body)

lemma printable_join_members:
  "list_all (\<lambda>(k, v). printable v) ms \<Longrightarrow> printable (join_members ms)"
  by (induction ms rule: join_members.induct) (auto simp: printable_Cons printable_quote_json)

lemma printable_json_object:
  "list_all (\<lambda>(k, v). printable v) ms \<Longrightarrow> printable (json_object ms)"
  by (simp add: json_object_def printable_Cons printable_join_members)

lemma printable_no_newline: "printable s \<Longrightarrow> CHR 0x0A \<notin> set s"
  by (auto simp: printable_def list_all_iff)

subsection \<open>Decoding what was encoded\<close>

lemma jstring_escape:
  "jescape r = Some (t, q) \<Longrightarrow> jstring (CHR 0x5C # r) = map_option (apfst ((@) t)) (jstring q)"
  by (subst jstring.simps) simp

lemma jstring_plain:
  assumes "byte c < 0x80" "\<not> byte c < 0x20" "c \<noteq> CHR 0x22" "c \<noteq> CHR 0x5C"
  shows "jstring (c # r) = map_option (apfst ((@) [c])) (jstring r)"
  using assms by (subst jstring.simps) (simp add: rune_len.simps)

lemma hex_val_digit: "n < 16 \<Longrightarrow> hex_val (hex_digit n) = Some n"
  by (auto simp: hex_val_def hex_digit_def Let_def)

lemma jescape_u00:
  assumes "byte c < 0x80"
  shows "jescape (''u00'' @ [hex_digit (byte c div 16), hex_digit (byte c mod 16)] @ q) = Some ([c], q)"
proof -
  have d: "byte c div 16 < 16" using assms by (simp add: div_less_iff_less_mult)
  have zero: "hex_val CHR ''0'' = Some 0" by (simp add: hex_val_def)
  then have "unicode_escape (''00'' @ [hex_digit (byte c div 16), hex_digit (byte c mod 16)] @ q)
      = Some ([c], q)"
    using assms d zero by (simp add: unicode_escape_def hex_val_digit encode_rune_def)
  then show ?thesis by (simp add: jescape_def)
qed

lemma jstring_ascii_escape:
  assumes c: "byte c < 0x80"
  shows "jstring (ascii_escape c @ q) = map_option (apfst ((@) [c])) (jstring q)"
proof -
  let ?short = "c \<in> {CHR 0x22, CHR 0x5C, CHR 0x08, CHR 0x0C, CHR 0x0A, CHR 0x0D, CHR 0x09}"
  let ?html = "byte c < 0x20 \<or> c = CHR ''<'' \<or> c = CHR ''>'' \<or> c = CHR ''&''"
  show ?thesis
  proof (cases ?short)
    case True
    then show ?thesis
      by (auto simp: ascii_escape_def jescape_def jstring_escape)
  next
    case short: False
    show ?thesis
    proof (cases ?html)
      case True
      with short have "ascii_escape c @ q =
          CHR 0x5C # ''u00'' @ [hex_digit (byte c div 16), hex_digit (byte c mod 16)] @ q"
        unfolding ascii_escape_def by simp
      then show ?thesis using jstring_escape [OF jescape_u00 [OF c, of q]] by simp
    next
      case False
      with short have "ascii_escape c = [c]" unfolding ascii_escape_def by simp
      with short False c show ?thesis by (simp add: jstring_plain)
    qed
  qed
qed

lemma rune_len_take_append:
  assumes "rune_len s \<noteq> 0"
  shows "rune_len (take (rune_len s) s @ t) = rune_len s"
proof (cases s)
  case (Cons c r)
  show ?thesis
  proof (cases "byte c < 0x80")
    case True
    then show ?thesis by (simp add: Cons rune_len.simps)
  next
    case False
    obtain k where k: "rune_len s = Suc k" using assms by (cases "rune_len s") auto
    have conts: "conts k r" using rune_len_conts [of c r] assms False k by (simp add: Cons)
    then have conts': "conts n (take k r @ t) = conts n r" if "n \<le> k" for n
      using that by (auto simp: conts_def list_all_iff)
    have "0 < k" using k False by (auto simp: Cons rune_len.simps Let_def split: if_splits)
    then have hd: "(case take k r @ t of [] \<Rightarrow> 0 | b # _ \<Rightarrow> byte b) = (case r of [] \<Rightarrow> 0 | b # _ \<Rightarrow> byte b)"
      using conts by (cases r; cases k) (auto simp: conts_def)
    show ?thesis
      using k hd conts' [of k] conts False
      unfolding Cons by (auto simp: rune_len.simps Let_def split: if_splits)
  qed
qed (use assms in simp)

lemma jstring_rune:
  assumes "rune_len (c # r) \<noteq> 0" "\<not> byte c < 0x80"
  defines "w \<equiv> take (rune_len (c # r)) (c # r)"
  shows "jstring (w @ q) = map_option (apfst ((@) w)) (jstring q)"
proof -
  have len: "length w = rune_len (c # r)" using rune_len_le [of "c # r"] by (simp add: w_def)
  have rl: "rune_len (w @ q) = rune_len (c # r)"
    unfolding w_def by (rule rune_len_take_append [OF assms(1)])
  obtain w' where w': "w = c # w'" using assms(1) by (cases "rune_len (c # r)") (auto simp: w_def)
  have "c \<noteq> CHR 0x22" "c \<noteq> CHR 0x5C" using assms(2) by auto
  moreover have "take (rune_len (w @ q)) (w @ q) = w" "drop (rune_len (w @ q)) (w @ q) = q"
    by (simp_all add: rl len [symmetric])
  ultimately show ?thesis using assms(1,2) w' rl
    by (subst jstring.simps) simp
qed

lemma jstring_rune_escape:
  assumes "rune_len (c # r) \<noteq> 0" "\<not> byte c < 0x80"
  defines "w \<equiv> take (rune_len (c # r)) (c # r)"
  shows "jstring (rune_escape w @ q) = map_option (apfst ((@) w)) (jstring q)"
proof -
  have "jescape (''u2028'' @ q) = Some ([CHR 0xE2, CHR 0x80, CHR 0xA8], q)"
    "jescape (''u2029'' @ q) = Some ([CHR 0xE2, CHR 0x80, CHR 0xA9], q)"
    by (simp_all add: jescape_def unicode_escape_def hex_val_def encode_rune_def char_of_eq_iff)
  then show ?thesis
    using jstring_rune [OF assms(1,2), of q] jstring_escape [of "''u2028'' @ q"]
      jstring_escape [of "''u2029'' @ q"]
    by (auto simp: rune_escape_def w_def)
qed

theorem jstring_quote_body:
  "valid_utf8 s \<Longrightarrow> jstring (quote_body s @ CHR 0x22 # q) = Some (s, q)"
proof (induction s rule: quote_body.induct)
  case (1 s)
  show ?case
  proof (cases s)
    case Nil
    then show ?thesis by (simp add: quote_body.simps jstring.simps [of "CHR 0x22 # q"])
  next
    case (Cons c r)
    show ?thesis
    proof (cases "byte c < 0x80")
      case True
      then have one: "rune_len (c # r) = 1" by (simp add: rune_len.simps)
      with "1.prems" have "valid_utf8 r" by (subst (asm) valid_utf8.simps) (simp add: Cons)
      with "1.IH"(1) [OF Cons True] show ?thesis
        by (simp add: Cons quote_body.simps [of "c # r"] True jstring_ascii_escape)
    next
      case False
      from "1.prems" have nz: "rune_len (c # r) \<noteq> 0"
        and v: "valid_utf8 (drop (rune_len (c # r)) (c # r))"
        by (subst (asm) valid_utf8.simps; simp add: Cons split: if_splits)+
      with "1.IH"(3) [OF Cons False] show ?thesis
        by (simp add: Cons quote_body.simps [of "c # r"] False jstring_rune_escape)
    qed
  qed
qed

lemma jvalue_quote:
  "valid_utf8 s \<Longrightarrow> jvalue (Suc f) d (quote_json s @ q) = Some (JStr s, q)"
  by (simp add: quote_json_def jstring_quote_body)

end
