(* ===== verification/Go_Json_Roundtrip.thy ===== *)
theory Go_Json_Roundtrip
  imports Go_Json_Decode Go_Json_Encode
begin

text \<open>
  Objects of scalar members: decoding an encoded object gives its members back,
  each with its source text. The broker's frames and the connector's own frames
  are such objects (up to their \<open>args\<close> and \<open>body\<close> members).
\<close>

definition delimited :: "string \<Rightarrow> bool" where
  "delimited q \<longleftrightarrow> q = [] \<or> hd q \<in> {CHR '','', CHR ''}'', CHR '']''}"

text \<open>\<open>t\<close> is the text of the value \<open>v\<close>, wherever a delimiter follows it.\<close>

definition encodes :: "string \<Rightarrow> json \<Rightarrow> bool" where
  "encodes t v \<longleftrightarrow>
     t \<noteq> [] \<and> \<not> is_space (hd t) \<and>
     (\<forall>f d q. delimited q \<longrightarrow> jvalue (Suc f) d (t @ q) = Some (v, q))"

lemma encodesD: "encodes t v \<Longrightarrow> delimited q \<Longrightarrow> jvalue (Suc f) d (t @ q) = Some (v, q)"
  by (simp add: encodes_def)

lemma encodes_string: "valid_utf8 s \<Longrightarrow> encodes (quote_json s) (JStr s)"
  using jvalue_quote [of s] by (simp add: encodes_def is_space_def quote_json_def)

lemma encodes_bool: "encodes ''true'' (JBool True)" "encodes ''false'' (JBool False)"
  by (simp_all add: encodes_def is_space_def)

lemma encodes_null: "encodes ''null'' JNull"
  by (simp add: encodes_def is_space_def)

subsection \<open>Integers\<close>

lemma digits_of_head:
  assumes "n \<noteq> 0"
  shows "hd (digits_of n) \<noteq> CHR ''0''"
  using assms
proof (induction n rule: digits_of.induct)
  case (1 n)
  show ?case
  proof (cases "n < 10")
    case True
    then have "digit_val (digit_char n) = n" by simp
    then have "digit_char n \<noteq> CHR ''0''" using "1.prems" by (auto simp: digit_val_def)
    with True show ?thesis by (subst digits_of.simps) simp
  next
    case False
    with 1 show ?thesis by (subst digits_of.simps) simp
  qed
qed

lemma digits_of_zero: "digits_of 0 = ''0''"
  by (subst digits_of.simps) (simp add: digit_char_def char_of_eq_iff)

lemma delimited_not_digit: "delimited q \<Longrightarrow> q = [] \<or> \<not> is_digit (hd q)"
  by (auto simp: delimited_def is_digit_def)

lemma dropWhile_digits:
  "list_all is_digit ds \<Longrightarrow> delimited q \<Longrightarrow> dropWhile is_digit (ds @ q) = q"
  by (induction ds) (use delimited_not_digit in \<open>cases q; fastforce\<close>)+

lemma digits_of_Cons: obtains c r where "digits_of n = c # r" "is_digit c" "list_all is_digit r"
  using digits_of_digits [of n] by (cases "digits_of n") auto

lemma jint_digits:
  assumes "delimited q"
  shows "jint (digits_of n @ q) = Some q"
proof (cases "n = 0")
  case True
  then show ?thesis by (simp add: jint_def digits_of_zero)
next
  case False
  obtain c r where cr: "digits_of n = c # r" "is_digit c" "list_all is_digit r"
    by (rule digits_of_Cons)
  have "c \<noteq> CHR ''0''" using digits_of_head [OF False] cr by simp
  then show ?thesis using cr dropWhile_digits [OF cr(3) assms]
    by (auto simp: jint_def digits1_def dest: is_digit_neq)
qed

lemma jint_Itoa: "delimited q \<Longrightarrow> jint (Itoa i @ q) = Some q"
proof -
  assume q: "delimited q"
  obtain c r where cr: "digits_of (nat (- i)) = c # r" by (rule digits_of_Cons)
  have neg: "jint (CHR ''-'' # digits_of n @ q) = jint (digits_of n @ q)" for n
  proof -
    obtain c r where "digits_of n = c # r" "is_digit c" by (rule digits_of_Cons)
    then show ?thesis by (auto simp: jint_def dest: is_digit_neq)
  qed
  show ?thesis using jint_digits [OF q] neg by (simp add: Itoa_def)
qed

lemma delimited_plain:
  assumes "delimited q"
  shows "\<not> HasPrefix q ''.''" "\<not> HasPrefix q ''e''" "\<not> HasPrefix q ''E''"
  using assms by (cases q; auto simp: delimited_def)+

lemma jnumber_Itoa: "delimited q \<Longrightarrow> jnumber (Itoa i @ q) = Some (Itoa i, q)"
  using delimited_plain [of q] by (simp add: jnumber_def jint_Itoa jfrac_def jexp_def)

lemma encodes_int: "encodes (Itoa i) (JNum (Itoa i))"
proof -
  obtain c r where cr: "Itoa i = c # r" using digits_of_not_Nil
    by (cases "Itoa i") (auto simp: Itoa_def split: if_splits)
  then have c: "is_digit c \<or> c = CHR ''-''" using Itoa_chars [of c i] by simp
  have ne: "c \<noteq> CHR ''{''" "c \<noteq> CHR ''[''" "c \<noteq> CHR 0x22" "c \<noteq> CHR ''t''" "c \<noteq> CHR ''f''" "c \<noteq> CHR ''n''"
    using c by (auto simp: is_digit_def)
  have "jvalue (Suc f) d (Itoa i @ q) = Some (JNum (Itoa i), q)" if "delimited q" for f d q
    using jnumber_Itoa [OF that, of i] ne
    by (simp add: cr del: jmembers.simps jelems.simps)
  moreover have "\<not> is_space c" using c by (auto simp: is_digit_def is_space_def)
  ultimately show ?thesis by (simp add: encodes_def cr)
qed

subsection \<open>Objects\<close>

lemma skip_ws_Cons: "\<not> is_space c \<Longrightarrow> skip_ws (c # s) = c # s"
  by (simp add: skip_ws_def)

lemma skip_ws_encodes: "encodes t v \<Longrightarrow> skip_ws (t @ q) = t @ q"
  by (cases t) (simp_all add: encodes_def skip_ws_Cons)

lemma skip_ws_join: "ms \<noteq> [] \<Longrightarrow> skip_ws (join_members ms @ q) = join_members ms @ q"
  by (cases ms rule: join_members.cases) (auto simp: quote_json_def skip_ws_Cons is_space_def)

definition members_ok :: "(string \<times> string \<times> json) list \<Rightarrow> bool" where
  "members_ok ms \<longleftrightarrow> list_all (\<lambda>(k, t, v). valid_utf8 k \<and> encodes t v) ms"

definition texts :: "(string \<times> string \<times> json) list \<Rightarrow> (string \<times> string) list" where
  "texts ms = map (\<lambda>(k, t, v). (k, t)) ms"

lemma jmembers_one:
  assumes "valid_utf8 k" "encodes t v" "delimited q"
  shows "jmembers (Suc (Suc f)) d (quote_json k @ CHR '':'' # t @ q) =
    (if HasPrefix q '','' then map_option (apfst ((#) (k, t, v))) (jmembers (Suc f) d (skip_ws (drop 1 q)))
     else if HasPrefix q ''}'' then Some ([(k, t, v)], drop 1 q) else None)"
proof -
  have q: "skip_ws q = q"
    using assms(3) by (cases q) (auto simp: skip_ws_def delimited_def is_space_def)
  have s: "skip_ws (CHR '':'' # u) = CHR '':'' # u" for u by (simp add: skip_ws_def is_space_def)
  have "jstring (quote_body k @ CHR 0x22 # CHR '':'' # t @ q) = Some (k, CHR '':'' # t @ q)"
    using jstring_quote_body [OF assms(1)] .
  then show ?thesis
    unfolding jmembers.simps(2) [of "Suc f"]
    by (simp add: quote_json_def s q skip_ws_encodes [OF assms(2)] encodesD [OF assms(2,3)] Let_def
        del: jmembers.simps jvalue.simps)
qed

lemma jmembers_join:
  assumes "members_ok ms" "ms \<noteq> []"
  shows "jmembers (Suc (length ms) + f) d (join_members (texts ms) @ CHR ''}'' # q) = Some (ms, q)"
  using assms
proof (induction ms)
  case (Cons m ms)
  obtain k t v where m: "m = (k, t, v)" by (cases m)
  from Cons.prems(1) have ok: "valid_utf8 k" "encodes t v" "members_ok ms"
    by (simp_all add: members_ok_def m)
  show ?case
  proof (cases ms)
    case Nil
    then show ?thesis
      using jmembers_one [OF ok(1,2), of "CHR ''}'' # q" f d]
      by (simp add: texts_def m delimited_def del: jmembers.simps)
  next
    case (Cons m' ms')
    then have ne: "texts ms \<noteq> []" by (simp add: texts_def)
    have join: "join_members (texts ((k, t, v) # ms)) =
        quote_json k @ CHR '':'' # t @ CHR '','' # join_members (texts ms)"
      using Cons by (cases m') (simp add: texts_def)
    have IH: "jmembers (Suc (length ms) + f) d (join_members (texts ms) @ CHR ''}'' # q) = Some (ms, q)"
      using Cons.IH ok(3) Cons by simp
    show ?thesis
      using jmembers_one [OF ok(1,2), of "CHR '','' # join_members (texts ms) @ CHR ''}'' # q"
          "length ms + f" d] IH
      by (simp add: join m delimited_def skip_ws_join [OF ne] del: jmembers.simps)
  qed
qed simp

lemma length_join: "length xs \<le> length (join_members xs)"
  by (induction xs rule: join_members.induct) (simp_all add: quote_json_def)

theorem decode_json_object:
  assumes "members_ok ms"
  shows "decode_next (json_object (texts ms) @ q) = Some (JObj ms, q)"
proof -
  let ?s = "json_object (texts ms) @ q"
  have s: "skip_ws ?s = ?s" by (simp add: json_object_def skip_ws_def is_space_def)
  show ?thesis
  proof (cases "ms = []")
    case True
    then show ?thesis
      by (simp add: decode_next_def s) (simp add: json_object_def texts_def skip_ws_def is_space_def max_nesting_def)
  next
    case False
    then have ne: "texts ms \<noteq> []" by (simp add: texts_def)
    have "hd (join_members (texts ms) @ CHR ''}'' # q) = CHR 0x22"
      using ne by (cases "texts ms" rule: join_members.cases) (auto simp: quote_json_def)
    then have nb: "\<not> HasPrefix (join_members (texts ms) @ CHR ''}'' # q) ''}''"
      by (cases "join_members (texts ms) @ CHR ''}'' # q") auto
    have "length ms \<le> length ?s"
      using length_join [of "texts ms"] by (simp add: json_object_def texts_def)
    then obtain g where g: "2 * length ?s + 2 = Suc (Suc (length ms) + g)"
      by (metis add_Suc_right le_Suc_ex mult_2 add.assoc add_2_eq_Suc' add_Suc)
    show ?thesis
      unfolding decode_next_def Let_def s g
      using jmembers_join [OF assms False, of g] skip_ws_join [OF ne] nb
      by (simp add: json_object_def max_nesting_def del: jmembers.simps)
  qed
qed

lemma json_parse_object:
  "members_ok ms \<Longrightarrow> json_parse (json_object (texts ms)) = Some (JObj ms)"
  using decode_json_object [of ms "[]"] by (simp add: json_parse_def skip_ws_def)

lemma decode_encodes:
  assumes "encodes t v"
  shows "decode_next t = Some (v, [])" and "json_parse t = Some v"
proof -
  have "skip_ws t = t" using skip_ws_encodes [OF assms, of "[]"] by simp
  then show "decode_next t = Some (v, [])"
    using encodesD [OF assms, of "[]"] by (simp add: decode_next_def delimited_def del: jvalue.simps)
  then show "json_parse t = Some v" by (simp add: json_parse_def skip_ws_def)
qed

end
