(* ===== verification/Vocab_Properties.thy ===== *)
theory Vocab_Properties
  imports Resolve Go_Json_Roundtrip
begin

text \<open>
  The properties of the allowlist: what the start-up check decides, which verbs can
  be accepted at all, what a denial may depend on, and what holds of the arguments
  of an accepted command.
\<close>

subsection \<open>The start-up check\<close>

text \<open>C18. \<open>Selfcheck\<close> passes on a vocabulary exactly when every verb of it is
  structurally safe: no compiled verb is mutating or content class, and no argument,
  compiled or reserved, has a banned name, a non-scalar kind, an unbounded integer
  or an unbounded string.\<close>

theorem selfcheck_decides_safety:
  "Selfcheck_of vs = None \<longleftrightarrow>
     (\<forall>v \<in> set vs.
        (compiled v \<longrightarrow> \<not> mutating v \<and> verb_class v \<noteq> ClassContent) \<and>
        (\<forall>a \<in> set (verb_args v).
           ToLower (arg_name a) \<notin> fst ` set bannedArgNames \<and>
           arg_kind a \<in> {KindInt, KindBool, KindString, KindDepotPath} \<and>
           (arg_kind a = KindInt \<longrightarrow> 0 < max_val a) \<and>
           (arg_kind a = KindString \<longrightarrow> 0 < max_len a)))"
  unfolding Selfcheck_of_None_iff verb_safe_def arg_safe_def by (rule refl)

theorem selfcheck_decides_safety_witness:
  "Selfcheck_of sys_verbs = None \<and>
   Selfcheck_of [(zero_verb ''jenkins.run'' ClassMutation)
     \<lparr>verb_args := [zero_arg ''Params'' KindBool]\<rparr>] \<noteq> None"
proof -
  have "ToLower ''Params'' = ''params''" by code_simp
  then show ?thesis unfolding selfcheck_decides_safety by (simp add: sys_verbs_def zero_verb_def zero_arg_def bannedArgNames_def)
qed

text \<open>The vocabulary this build ships passes the check, its lookup table is
  built without the duplicate-name panic, and the announced capabilities are exactly
  the seven compiled verbs, sorted.\<close>

theorem vocabulary_starts:
  "Selfcheck = None \<and> build_index Vocabulary Map.empty \<noteq> None \<and>
   CompiledVerbs = [''p4.changes'', ''p4.describe'', ''sys.capabilities'', ''sys.ping'',
     ''sys.version'', ''teamcity.build.get'', ''teamcity.server.info'']"
proof (intro conjI)
  show "Selfcheck = None" by (simp add: Selfcheck_def Selfcheck_of_None_iff Vocabulary_safe)
  show "build_index Vocabulary Map.empty \<noteq> None"
    using build_index_lookup [OF Vocabulary_distinct, of Map.empty] by auto
  show "CompiledVerbs = [''p4.changes'', ''p4.describe'', ''sys.capabilities'', ''sys.ping'',
     ''sys.version'', ''teamcity.build.get'', ''teamcity.server.info'']"
    unfolding CompiledVerbs_def compiled_list by code_simp
qed

subsection \<open>Which commands can be accepted\<close>

text \<open>C2. Whatever the frame says and whatever is configured, an accepted command
  names a verb of the announced capability list; it is neither mutating nor content
  class, and its tool, if it needs one, is enabled in the local configuration.\<close>

theorem resolve_only_compiled:
  assumes "Resolve name raw sc tools = Inr (v, m)"
  shows "name \<in> set CompiledVerbs \<and> verb_name v = name \<and> \<not> mutating v \<and>
    verb_class v \<in> {ClassMetadata, ClassPaths} \<and> (verb_tool v = [] \<or> tools (verb_tool v))"
proof -
  from assms obtain supplied where v: "v \<in> set Vocabulary" "verb_name v = name" "compiled v"
      "verb_class v \<noteq> ClassContent" "verb_tool v = [] \<or> tools (verb_tool v)"
    by (rule Resolve_InrD)
  have "name \<in> set CompiledVerbs" using v(1-3) by (auto simp: CompiledVerbs_def)
  moreover have "list_all (\<lambda>v. verb_class v \<in> {ClassMetadata, ClassPaths, ClassContent, ClassMutation})
      (filter compiled Vocabulary)"
    "list_all (\<lambda>v. verb_class v \<noteq> ClassMutation) (filter compiled Vocabulary)"
    by code_simp+
  ultimately show ?thesis using v Vocabulary_safe [OF v(1)]
    by (auto simp: list_all_iff verb_safe_def)
qed

theorem resolve_only_compiled_witness:
  "\<exists>v m. Resolve ''sys.ping'' ''{}'' \<lparr>depot_scope = [], allowed_build_types = [], repo_allowlist = []\<rparr>
       (\<lambda>_. False) = Inr (v, m) \<and> \<not> mutating v"
proof -
  obtain v m where r: "Resolve ''sys.ping'' ''{}''
      \<lparr>depot_scope = [], allowed_build_types = [], repo_allowlist = []\<rparr> (\<lambda>_. False) = Inr (v, m)"
    by (simp add: Resolve_def Lookup_eq table_defs validateArgs_def supplied_args_def decode_raw_map_def
        decode_next_def skip_ws_def is_space_def max_nesting_def)
  from resolve_only_compiled [OF r] r show ?thesis by blast
qed

text \<open>C17. The answer to a name that is not compiled in (unknown or reserved) is the
  same for every argument text, every scope list and every set of configured tools:
  it reveals nothing about the configuration.\<close>

theorem resolve_hides_configuration:
  assumes "name \<notin> set CompiledVerbs"
  shows "Resolve name raw sc tools = Resolve name raw' sc' tools' \<and>
    (\<exists>e. Resolve name raw sc tools = Inl e \<and>
      deny_reason e = (if Lookup name = None then ReasonUnknownVerb else ReasonVerbNotCompiled))"
proof -
  have "\<not> compiled v" if "Lookup name = Some v" for v
    using assms Lookup_SomeD [OF that] by (auto simp: CompiledVerbs_def)
  then show ?thesis by (auto simp: Resolve_def split: option.splits)
qed

theorem resolve_hides_configuration_witness:
  "\<exists>e. Resolve ''p4.file_contents'' ''{}'' \<lparr>depot_scope = [], allowed_build_types = [], repo_allowlist = []\<rparr>
     (\<lambda>_. True) = Inl e"
proof -
  have "''p4.file_contents'' \<notin> set CompiledVerbs"
    unfolding CompiledVerbs_def compiled_list by simp
  from resolve_hides_configuration [OF this] show ?thesis by blast
qed

end
