(* ===== verification/Path_Scope.thy ===== *)
theory Path_Scope
  imports Resolve
begin

text \<open>
  What a depot scope confines. Perforce's own matching of a path pattern against a
  depot file is a parameter, \<open>matches\<close>. The code relies on two documented facts about
  it (for a server that is case-sensitive): text in front of the first special
  character is matched literally, and a trailing \<open>...\<close> matches any continuation,
  slashes included. Special are the wildcards, and the characters of revision
  specifiers and escapes, which the path check excludes.
\<close>

definition special_at :: "string \<Rightarrow> nat \<Rightarrow> bool" where
  "special_at p i \<longleftrightarrow> p ! i \<in> {CHR ''*'', CHR ''%'', CHR ''@'', CHR ''#''} \<or> HasPrefix (drop i p) ''...''"

definition literal_matching :: "(string \<Rightarrow> string \<Rightarrow> bool) \<Rightarrow> bool" where
  "literal_matching matches \<longleftrightarrow>
     (\<forall>w x f. (\<forall>i < length w. \<not> special_at (w @ x) i) \<longrightarrow> matches (w @ x) f \<longrightarrow> HasPrefix f w)"

definition dots_matching :: "(string \<Rightarrow> string \<Rightarrow> bool) \<Rightarrow> bool" where
  "dots_matching matches \<longleftrightarrow>
     (\<forall>w x. (\<forall>i < length w. \<not> special_at (w @ ''...'') i) \<longrightarrow> matches (w @ ''...'') (w @ x))"

text \<open>Scopes as \<open>config.Validate\<close> leaves them: directories without wildcards.\<close>

definition directory_scopes :: "string list \<Rightarrow> bool" where
  "directory_scopes ps \<longleftrightarrow> (\<forall>p \<in> set ps. HasSuffix p ''/'' \<and> wildcard_free p)"

text \<open>
  What a scope \<open>q\<close> confines an accepted path to. Every file the path matches begins with
  the scope's root, the scope without its final slash. The files lie under the scope
  itself unless the path is the root alone or has a wildcard glued to the root.
\<close>

definition path_within :: "(string \<Rightarrow> string \<Rightarrow> bool) \<Rightarrow> string \<Rightarrow> string \<Rightarrow> bool" where
  "path_within matches q s \<longleftrightarrow>
     (\<forall>f. matches s f \<longrightarrow> HasPrefix f (TrimSuffix q ''/'')) \<and>
     ((HasPrefix s q \<and> (\<forall>f. matches s f \<longrightarrow> HasPrefix f q)) \<or>
      s = TrimSuffix q ''/'' \<or>
      (\<exists>r. s = TrimSuffix q ''/'' @ r \<and> (HasPrefix r ''*'' \<or> HasPrefix r ''...'')))"

lemma literal_part:
  assumes "literal_matching matches" "HasPrefix (literalPrefix s) w" "CHR ''*'' \<notin> set w"
    and "set s \<inter> {CHR ''@'', CHR ''#'', CHR ''%''} = {}" "matches s f"
  shows "HasPrefix f w"
proof -
  from assms(2) literalPrefix_prefix [of s] obtain x where s: "s = w @ x"
    using HasPrefix_trans HasPrefix_iff by blast
  have "\<not> special_at s i" if i: "i < length w" for i
  proof -
    have "s ! i \<in> set w" using s i by (simp add: nth_append)
    moreover have "i < length (literalPrefix s)" using assms(2) i by (auto simp: HasPrefix_iff)
    ultimately show ?thesis
      using assms(3,4) s literalPrefix_no_dots_at [of i s] by (auto simp: special_at_def)
  qed
  then show ?thesis using assms(1,5) s unfolding literal_matching_def by blast
qed

lemma in_scope_within:
  assumes "in_scope_of q (literalPrefix s)" "wildcard_free q"
    and "set s \<inter> {CHR ''@'', CHR ''#'', CHR ''%''} = {}" "literal_matching matches"
  shows "path_within matches q s"
proof -
  from assms(1) obtain r where q: "q = r @ ''/''" by (auto simp: in_scope_of_def HasSuffix_iff)
  have star: "CHR ''*'' \<notin> set q" using assms(2) by (simp add: wildcard_free_def)
  note lit = literal_part [OF assms(4) _ _ assms(3)]
  from assms(1) consider (root) "literalPrefix s = r" | (below) "HasPrefix (literalPrefix s) q"
    by (auto simp: in_scope_of_def q)
  then show ?thesis
  proof cases
    case root
    then have "HasPrefix f r" if "matches s f" for f using lit [OF _ _ that, of r] star by (simp add: q HasPrefix_def)
    moreover have "s = r \<or> (\<exists>x. s = r @ x \<and> (HasPrefix x ''*'' \<or> HasPrefix x ''...''))"
      using literalPrefix_exact(2) [of s] root star by (auto simp: q)
    ultimately show ?thesis by (simp add: path_within_def q)
  next
    case below
    then have f: "HasPrefix f q" if "matches s f" for f using lit [OF _ star that] by simp
    have "HasPrefix q r" by (simp add: q)
    then have "HasPrefix f r" if "matches s f" for f using f [OF that] HasPrefix_trans by blast
    moreover have "HasPrefix s q" using below literalPrefix_prefix HasPrefix_trans by blast
    ultimately show ?thesis using f by (simp add: path_within_def q)
  qed
qed

lemma Resolve_named:
  assumes "Resolve name raw sc tools = Inr (v, m)" "Lookup name = Some w"
  shows "v = w"
  using assms by (auto simp: Resolve_def split: if_splits sum.splits)

text \<open>The path of an accepted \<open>p4.changes\<close>, as its schema's checks leave it.\<close>

definition path_ok :: "string list \<Rightarrow> string \<Rightarrow> bool" where
  "path_ok ps p \<longleftrightarrow>
     HasPrefix p ''//'' \<and> length p \<le> 1024 \<and>
     set p \<inter> {CHR 0x00, CHR 0x0A, CHR 0x0D, CHR ''@'', CHR ''#'', CHR ''%''} = {} \<and>
     set (Split (TrimPrefix p ''//'') CHR ''/'') \<inter> {''.'', ''..''} = {} \<and>
     (\<exists>q \<in> set ps. in_scope_of q (literalPrefix p))"

lemma value_ok_path_iff: "value_ok changes_path sc (VString p) \<longleftrightarrow> path_ok (depot_scope sc) p"
  by (auto simp: value_ok_def path_ok_def changes_path_def zero_arg_def validateDepotPath_def
      ContainsAny_iff check_pattern_def checkScope_def withinPrefixList_iff list_ex_iff
      split: if_splits)

subsection \<open>The contract between the scopes' owner and the path check\<close>

text \<open>
  Whoever owns the scope lists (the configuration) promises that, when it is ready,
  they are directories without wildcards; the path check then confines.
\<close>

locale directory_scoped =
  fixes ready :: "'c \<Rightarrow> bool"
    and owned :: "'c \<Rightarrow> scopes"
  assumes directories: "ready c \<Longrightarrow> directory_scopes (depot_scope (owned c))"
begin

lemma scope_suffix: "ready c \<Longrightarrow> q \<in> set (depot_scope (owned c)) \<Longrightarrow> HasSuffix q ''/''"
  using directories by (auto simp: directory_scopes_def)

lemma path_contained:
  assumes "ready c" "path_ok (depot_scope (owned c)) s" "literal_matching matches"
  shows "\<exists>q \<in> set (depot_scope (owned c)). path_within matches q s"
proof -
  from assms(2) obtain q where q: "q \<in> set (depot_scope (owned c))" "in_scope_of q (literalPrefix s)"
    and s: "set s \<inter> {CHR ''@'', CHR ''#'', CHR ''%''} = {}"
    by (auto simp: path_ok_def)
  have "wildcard_free q" using directories [OF assms(1)] q(1) by (simp add: directory_scopes_def)
  from in_scope_within [OF q(2) this s assms(3)] show ?thesis using q(1) by blast
qed

lemma containment:
  assumes "ready c" "Resolve ''p4.changes'' raw (owned c) tools = Inr (v, m)"
    and "m ''path'' = Some (VString s)" "literal_matching matches"
  shows "\<exists>q \<in> set (depot_scope (owned c)). path_within matches q s"
proof -
  have "v = changes_verb" using Resolve_named [OF assms(2) Lookup_live(2)] .
  then obtain a where "a \<in> {changes_path, changes_max}" "arg_name a = ''path''" "value_ok a (owned c) (VString s)"
    using Resolve_value [OF assms(2,3)] by (auto simp: changes_verb_def)
  then have "path_ok (depot_scope (owned c)) s"
    using value_ok_path_iff by (auto simp: changes_max_def zero_arg_def)
  from path_contained [OF assms(1) this assms(4)] show ?thesis .
qed

end

end
