(* ===== verification/Argument_Properties.thy ===== *)
theory Argument_Properties
  imports Path_Scope Go_Json_Roundtrip
begin

text \<open>
  What holds of the arguments of an accepted command, verb by verb, what a depot
  scope lets through, and which denial each early return gives.
\<close>

subsection \<open>The validated map\<close>

text \<open>An accepted command's map, key by key: absent, or the argument's validated value.\<close>

lemma Resolve_map:
  assumes "Resolve name raw sc tools = Inr (v, m)"
  obtains supplied where "supplied_args raw = Some supplied"
    "fst ` set supplied \<subseteq> arg_name ` set (verb_args v)"
    "dom m = fst ` set supplied"
    "\<And>a. a \<in> set (verb_args v) \<Longrightarrow> required a \<Longrightarrow> arg_name a \<in> dom m"
proof -
  from assms obtain supplied where s: "v \<in> set Vocabulary" "supplied_args raw = Some supplied"
      "fst ` set supplied \<subseteq> arg_name ` set (verb_args v)"
      "validate_loop name (verb_args v) supplied sc Map.empty = Inr m"
    by (rule Resolve_InrD)
  note dist = Vocabulary_args_distinct [OF s(1)]
  have dom: "n \<in> dom m \<longleftrightarrow> n \<in> fst ` set supplied" for n
  proof (cases "find (\<lambda>a. arg_name a = n) (verb_args v)")
    case None
    then have "n \<notin> arg_name ` set (verb_args v)" by (auto simp: find_None_iff)
    then show ?thesis using validate_loop_ok [OF s(4) dist, of n] None s(3) by (auto simp: dom_def)
  next
    case (Some a)
    then have a: "a \<in> set (verb_args v)" "arg_name a = n" by (auto simp: find_Some_iff)
    show ?thesis
    proof (cases "last_of supplied n")
      case None
      then have "n \<notin> fst ` set supplied" "m n = None"
        using validate_loop_ok [OF s(4) dist, of n] Some last_of_None_iff [of supplied n] by simp_all
      then show ?thesis by blast
    next
      case (Some raw')
      then obtain x where "validate a raw' sc = Inr x"
        using validate_loop_required(2) [OF s(4) a(1)] a(2) by blast
      moreover have "n \<in> fst ` set supplied" using Some last_of_Some_in by force
      ultimately show ?thesis
        using validate_loop_ok [OF s(4) dist, of n] \<open>find _ _ = Some a\<close> Some by (simp add: dom_def)
    qed
  qed
  have "arg_name a \<in> dom m" if "a \<in> set (verb_args v)" "required a" for a
    using validate_loop_required(1) [OF s(4) that] dom by (auto simp: last_of_None_iff)
  with that s dom show thesis by blast
qed

lemma Resolve_dom:
  assumes "Resolve name raw sc tools = Inr (v, m)"
  shows "dom m \<subseteq> arg_name ` set (verb_args v)"
    and "a \<in> set (verb_args v) \<Longrightarrow> required a \<Longrightarrow> arg_name a \<in> dom m"
  using Resolve_map [OF assms] by metis+

text \<open>C7. Nothing is smuggled past the schema: an accepted command's argument map has
  exactly the keys the frame's \<open>args\<close> object has, each of them an argument of the
  verb's schema, every required argument is there, and every value has its
  argument's type and satisfies its bounds, pattern, path syntax and scope.\<close>

theorem resolve_args_in_schema:
  assumes "Resolve name raw sc tools = Inr (v, m)"
  shows "\<exists>supplied. supplied_args raw = Some supplied \<and> dom m = fst ` set supplied \<and>
    dom m \<subseteq> arg_name ` set (verb_args v) \<and>
    (\<forall>a \<in> set (verb_args v). required a \<longrightarrow> arg_name a \<in> dom m) \<and>
    (\<forall>n x. m n = Some x \<longrightarrow> (\<exists>a \<in> set (verb_args v). arg_name a = n \<and> value_ok a sc x))"
  using assms by (elim Resolve_map) (use Resolve_value [OF assms] in fastforce)

theorem resolve_args_in_schema_witness:
  "\<exists>v m. Resolve ''sys.ping'' ''null'' \<lparr>depot_scope = [], allowed_build_types = [], repo_allowlist = []\<rparr>
     (\<lambda>_. False) = Inr (v, m) \<and> dom m = {}"
proof -
  obtain v m where r: "Resolve ''sys.ping'' ''null''
      \<lparr>depot_scope = [], allowed_build_types = [], repo_allowlist = []\<rparr> (\<lambda>_. False) = Inr (v, m)"
    by (simp add: Resolve_def Lookup_eq table_defs validateArgs_def supplied_args_def)
  from resolve_args_in_schema [OF r] r show ?thesis by (auto simp: supplied_args_def)
qed

subsection \<open>The Perforce verbs\<close>

text \<open>An accepted \<open>p4.describe\<close> carries a change number between 1 and 2^40 and, if
  it carries them, a file cap between 1 and 100000 and an \<open>include_diff\<close> that is
  false; it carries nothing else.\<close>

theorem describe_arguments:
  assumes "Resolve ''p4.describe'' raw sc tools = Inr (v, m)"
  shows "(\<exists>c. m ''change'' = Some (VInt c) \<and> 1 \<le> c \<and> c \<le> 2 ^ 40) \<and>
    m ''max_files'' \<in> {None} \<union> (Some \<circ> VInt) ` {1..100000} \<and>
    m ''include_diff'' \<in> {None, Some (VBool False)} \<and>
    dom m \<subseteq> {''change'', ''max_files'', ''include_diff''}"
proof -
  have v: "v = describe_verb" using Resolve_named [OF assms Lookup_live(1)] .
  have val: "\<exists>a \<in> set (verb_args describe_verb). arg_name a = n \<and> value_ok a sc x" if "m n = Some x" for n x
    using Resolve_value [OF assms that] v by simp
  have dom: "dom m \<subseteq> {''change'', ''max_files'', ''include_diff''}" "''change'' \<in> dom m"
    using Resolve_dom(1) [OF assms] Resolve_dom(2) [OF assms, of "hd (verb_args v)"]
    by (simp_all add: v table_defs)
  then obtain x where x: "m ''change'' = Some x" by blast
  from val [OF x] have "\<exists>c. m ''change'' = Some (VInt c) \<and> 1 \<le> c \<and> c \<le> 2 ^ 40"
    using x by (auto simp: table_defs value_ok_def split: argval.splits)
  moreover have "m ''max_files'' \<in> {None} \<union> (Some \<circ> VInt) ` {1..100000}"
    using val [of "''max_files''"]
    by (cases "m ''max_files''") (auto simp: table_defs value_ok_def split: argval.splits)
  moreover have "m ''include_diff'' \<in> {None, Some (VBool False)}"
    using val [of "''include_diff''"]
    by (cases "m ''include_diff''") (auto simp: table_defs value_ok_def split: argval.splits)
  ultimately show ?thesis using dom(1) by blast
qed

text \<open>An object of members with distinct plain keys, as a decoded argument object.\<close>

lemma supplied_object:
  "members_ok ms \<Longrightarrow> supplied_args (json_object (texts ms)) = Some (texts ms)"
  using decode_json_object [of ms "[]"]
  by (auto simp: supplied_args_def decode_raw_map_def texts_def json_object_def)

lemma validateInt_Itoa:
  "in_int64 i \<Longrightarrow> min_val a \<le> i \<Longrightarrow> i \<le> max_val a \<Longrightarrow> validateInt a (Itoa i) = Inr (VInt i)"
  by (simp add: validateInt_def decode_encodes(1) [OF encodes_int] ParseInt_Itoa)

lemma Resolve_InrI:
  assumes "Lookup name = Some v" "compiled v" "verb_class v \<noteq> ClassContent" "tools (verb_tool v)"
    and "supplied_args raw = Some supplied" "fst ` set supplied \<subseteq> arg_name ` set (verb_args v)"
    and "validate_loop (verb_name v) (verb_args v) supplied sc Map.empty = Inr m"
  shows "Resolve name raw sc tools = Inr (v, m)"
proof -
  have "find (\<lambda>k. k \<notin> set (map arg_name (verb_args v))) (map fst supplied) = None"
    using assms(6) by (auto simp: find_None_iff)
  with assms show ?thesis by (simp add: Resolve_def validateArgs_def)
qed

text \<open>A command with one integer argument, as the broker writes it.\<close>

lemma one_int_supplied:
  "list_all (\<lambda>c. byte c < 0x80) k \<Longrightarrow>
   supplied_args (json_object [(k, Itoa i)]) = Some [(k, Itoa i)]"
  using supplied_object [of "[(k, Itoa i, JNum (Itoa i))]"] valid_utf8_ascii [of k]
  by (simp add: members_ok_def texts_def encodes_int)

lemma describe_accepts:
  assumes "1 \<le> i" "i \<le> 2 ^ 40" "tools ''perforce''"
  shows "Resolve ''p4.describe'' (json_object [(''change'', Itoa i)]) sc tools =
    Inr (describe_verb, [''change'' \<mapsto> VInt i])"
proof (rule Resolve_InrI [OF Lookup_live(1) _ _ _ one_int_supplied])
  have "in_int64 i" using assms(1,2) by (simp add: in_int64_def int64_min_def int64_max_def)
  then have "validateInt ((zero_arg ''change'' KindInt)\<lparr>required := True, min_val := 1, max_val := 2 ^ 40\<rparr>)
      (Itoa i) = Inr (VInt i)"
    using assms by (intro validateInt_Itoa) simp_all
  then show "validate_loop (verb_name describe_verb) (verb_args describe_verb) [(''change'', Itoa i)] sc Map.empty =
      Inr [''change'' \<mapsto> VInt i]"
    by (simp add: describe_verb_def zero_verb_def last_of_def validate_def) (simp add: zero_arg_def last_of_def)
qed (use assms in \<open>simp_all add: describe_verb_def zero_verb_def zero_arg_def\<close>)

theorem describe_arguments_witness:
  "\<exists>m. Resolve ''p4.describe'' (json_object [(''change'', Itoa 7)])
      \<lparr>depot_scope = [], allowed_build_types = [], repo_allowlist = []\<rparr> (\<lambda>_. True)
      = Inr (describe_verb, m) \<and> m ''max_files'' \<noteq> Some (VInt 0)"
proof -
  let ?m = "[''change'' \<mapsto> VInt 7]"
  have r: "Resolve ''p4.describe'' (json_object [(''change'', Itoa 7)])
      \<lparr>depot_scope = [], allowed_build_types = [], repo_allowlist = []\<rparr> (\<lambda>_. True)
      = Inr (describe_verb, ?m)"
    by (rule describe_accepts) simp_all
  from describe_arguments [OF r] have "?m ''max_files'' \<noteq> Some (VInt 0)" by auto
  with r show ?thesis by blast
qed

text \<open>An accepted \<open>p4.changes\<close> carries one path, at most 1024 bytes, that begins
  with two slashes (so it is never read as an option), holds no control character, no
  revision specifier and no traversal segment, and whose literal prefix lies in a
  configured depot scope; the cap, if given, is between 1 and 200.\<close>

theorem changes_arguments:
  assumes "Resolve ''p4.changes'' raw sc tools = Inr (v, m)"
  shows "(\<exists>p. m ''path'' = Some (VString p) \<and> path_ok (depot_scope sc) p) \<and>
    m ''max'' \<in> {None} \<union> (Some \<circ> VInt) ` {1..200} \<and> dom m \<subseteq> {''path'', ''max''}"
proof -
  have v: "v = changes_verb" using Resolve_named [OF assms Lookup_live(2)] .
  have val: "\<exists>a \<in> {changes_path, changes_max}. arg_name a = n \<and> value_ok a sc x" if "m n = Some x" for n x
    using Resolve_value [OF assms that] v by (simp add: changes_verb_def)
  have names: "arg_name changes_path = ''path''" "arg_name changes_max = ''max''"
    by (simp_all add: changes_path_def changes_max_def zero_arg_def)
  have dom: "dom m \<subseteq> {''path'', ''max''}" "''path'' \<in> dom m"
    using Resolve_dom(1) [OF assms] Resolve_dom(2) [OF assms, of changes_path]
    by (simp_all add: v changes_verb_def names) (simp add: changes_path_def)
  then obtain x where x: "m ''path'' = Some x" by blast
  have "value_ok changes_path sc x" using val [OF x] names by auto
  then have "\<exists>p. m ''path'' = Some (VString p) \<and> path_ok (depot_scope sc) p"
    using x value_ok_path_iff
    by (cases x) (auto simp: value_ok_def changes_path_def zero_arg_def)
  moreover have "m ''max'' \<in> {None} \<union> (Some \<circ> VInt) ` {1..200}"
  proof (cases "m ''max''")
    case (Some y)
    then have "value_ok changes_max sc y" using val [OF Some] names by auto
    then show ?thesis using Some
      by (cases y) (auto simp: value_ok_def changes_max_def zero_arg_def)
  qed simp
  ultimately show ?thesis using dom(1) by blast
qed

text \<open>Acceptance of a path the broker sends as a JSON string.\<close>

lemma changes_supplied:
  "valid_utf8 p \<Longrightarrow>
   supplied_args (json_object [(''path'', quote_json p)]) = Some [(''path'', quote_json p)]"
  using supplied_object [of "[(''path'', quote_json p, JStr p)]"] valid_utf8_ascii [of "''path''"]
  by (simp add: members_ok_def texts_def encodes_string)

lemma validateString_quote:
  assumes "valid_utf8 s" "value_ok a sc (VString s)"
  shows "validateString a (quote_json s) sc = Inr (VString s)"
proof -
  have u: "unmarshal_into as_string [] (quote_json s) = Some s"
    by (simp add: unmarshal_into_def as_string_def decode_encodes(2) [OF encodes_string [OF assms(1)]])
  have ok: "\<not> (0 < max_len a \<and> max_len a < int (length s))"
    "\<not> ContainsAny s [CHR 0x00, CHR 0x0A, CHR 0x0D]"
    "arg_kind a = KindDepotPath \<Longrightarrow> validateDepotPath (arg_name a) s = None"
    "check_pattern a s = None" "checkScope a s sc = None"
    using assms(2) by (auto simp: value_ok_def ContainsAny_iff)
  show ?thesis unfolding validateString_def u using ok by simp
qed

lemma changes_accepts:
  assumes "valid_utf8 p" "path_ok (depot_scope sc) p" "tools ''perforce''"
  shows "Resolve ''p4.changes'' (json_object [(''path'', quote_json p)]) sc tools =
    Inr (changes_verb, [''path'' \<mapsto> VString p])"
proof (rule Resolve_InrI [OF Lookup_live(2) _ _ _ changes_supplied])
  have n: "arg_name changes_path = ''path''" "arg_kind changes_path = KindDepotPath"
    "arg_name changes_max = ''max''" "\<not> required changes_max"
    by (simp_all add: changes_path_def changes_max_def zero_arg_def)
  have "validate changes_path (quote_json p) sc = Inr (VString p)"
    using validateString_quote [OF assms(1)] assms(2) n(2)
    by (simp add: validate_def value_ok_path_iff)
  then show "validate_loop (verb_name changes_verb) (verb_args changes_verb)
      [(''path'', quote_json p)] sc Map.empty = Inr [''path'' \<mapsto> VString p]"
    using n by (simp add: changes_verb_def zero_verb_def last_of_def)
qed (use assms in \<open>simp_all add: changes_verb_def zero_verb_def changes_path_def zero_arg_def\<close>)

definition game_scope :: scopes where
  "game_scope = \<lparr>depot_scope = [''//depot/game/''], allowed_build_types = [], repo_allowlist = []\<rparr>"

lemma path_ok_game: "path_ok (depot_scope game_scope) ''//depot/game/...''"
  by (simp add: path_ok_def game_scope_def in_scope_of_def literalPrefix_def TrimPrefix_def
      HasSuffix_def Split.simps)

theorem changes_arguments_witness:
  "\<exists>m. Resolve ''p4.changes'' (json_object [(''path'', quote_json ''//depot/game/...'')]) game_scope (\<lambda>_. True)
     = Inr (changes_verb, m) \<and> m ''max'' \<noteq> Some (VInt 201)"
proof -
  let ?m = "[''path'' \<mapsto> VString ''//depot/game/...'']"
  have r: "Resolve ''p4.changes'' (json_object [(''path'', quote_json ''//depot/game/...'')]) game_scope (\<lambda>_. True)
     = Inr (changes_verb, ?m)"
    by (rule changes_accepts [OF _ path_ok_game]) (simp_all add: valid_utf8_ascii)
  from changes_arguments [OF r] have "?m ''max'' \<noteq> Some (VInt 201)" by auto
  with r show ?thesis by blast
qed




text \<open>C15. A \<open>teamcity.build.get\<close> for build number \<open>i\<close>, for any 64-bit \<open>i\<close>, is accepted
  exactly when teamcity is configured and \<open>i\<close> is between 1 and 2^40, and then the verb
  gets \<open>i\<close>; otherwise it is denied with the tool or the range reason.\<close>

theorem build_get_roundtrip:
  assumes "in_int64 i"
  shows "Resolve ''teamcity.build.get'' (json_object [(''build_id'', Itoa i)]) sc tools =
    (if \<not> tools ''teamcity'' then
       Inl (deny ReasonToolNotConfigured ''no %s section in connector.yml'' [FStr ''teamcity''])
     else if 1 \<le> i \<and> i \<le> 2 ^ 40 then Inr (build_verb, [''build_id'' \<mapsto> VInt i])
     else Inl (deny ReasonArgumentRange ''%s must be between %d and %d''
       [FStr ''build_id'', FInt 1, FInt (2 ^ 40)]))"
proof -
  have "validate build_id_arg (Itoa i) sc =
      (if 1 \<le> i \<and> i \<le> 2 ^ 40 then Inr (VInt i)
       else Inl (deny ReasonArgumentRange ''%s must be between %d and %d''
         [FStr ''build_id'', FInt 1, FInt (2 ^ 40)]))"
    using decode_encodes(1) [OF encodes_int, of i] ParseInt_Itoa [OF assms]
    by (auto simp: validate_def validateInt_def build_id_arg_def zero_arg_def)
  moreover have "supplied_args (json_object [(''build_id'', Itoa i)]) = Some [(''build_id'', Itoa i)]"
    by (rule one_int_supplied) simp
  moreover have "arg_name build_id_arg = ''build_id''" by (simp add: build_id_arg_def zero_arg_def)
  ultimately show ?thesis
    by (simp add: Resolve_def Lookup_live validateArgs_def build_verb_def zero_verb_def last_of_def)
qed

theorem build_get_roundtrip_witness:
  "Resolve ''teamcity.build.get'' (json_object [(''build_id'', Itoa 42)]) game_scope (\<lambda>_. True) =
     Inr (build_verb, [''build_id'' \<mapsto> VInt 42])"
  using build_get_roundtrip [of 42 game_scope "\<lambda>_. True"]
  by (simp add: in_int64_def int64_min_def int64_max_def)

subsection \<open>Which denial\<close>

text \<open>The syntax of a depot path, and the number an integer argument stands for.\<close>

definition path_syntax :: "string \<Rightarrow> bool" where
  "path_syntax s \<longleftrightarrow>
     HasPrefix s ''//'' \<and> set s \<inter> {CHR ''@'', CHR ''#'', CHR ''%''} = {} \<and>
     set (Split (TrimPrefix s ''//'') CHR ''/'') \<inter> {''.'', ''..''} = {}"

definition int_value :: "string \<Rightarrow> int option" where
  "int_value raw = (case decode_next raw of Some (JNum n, _) \<Rightarrow> ParseInt n | _ \<Rightarrow> None)"

text \<open>
  What a reason says of an argument's text: the type before the length or the range,
  these before the form, and the form before the scope. A text that no reason applies
  to is accepted.
\<close>

definition denied_for :: "arg \<Rightarrow> string \<Rightarrow> scopes \<Rightarrow> deny_reason \<Rightarrow> bool" where
  "denied_for a raw sc q \<longleftrightarrow>
     (case arg_kind a of
        KindInt \<Rightarrow>
          (case int_value raw of
             None \<Rightarrow> q = ReasonArgumentType
           | Some i \<Rightarrow> q = ReasonArgumentRange \<and> (i < min_val a \<or> max_val a < i))
      | KindBool \<Rightarrow>
          (case unmarshal_into as_bool False raw of
             None \<Rightarrow> q = ReasonArgumentType
           | Some b \<Rightarrow> q = ReasonContentVerbOff \<and> must_be_false a \<and> b)
      | KindOther _ \<Rightarrow> q = ReasonArgumentType
      | _ \<Rightarrow>
          (case unmarshal_into as_string [] raw of
             None \<Rightarrow> q = ReasonArgumentType
           | Some s \<Rightarrow>
               if 0 < max_len a \<and> max_len a < int (length s) then q = ReasonArgumentRange
               else if set s \<inter> {CHR 0x00, CHR 0x0A, CHR 0x0D} \<noteq> {} \<or>
                 (arg_kind a = KindDepotPath \<and> \<not> path_syntax s) \<or>
                 (\<exists>re. pattern a = Some re \<and> \<not> MatchString re s) then q = ReasonArgumentPattern
               else q = ReasonOutOfScopePath \<and> arg_scope a = ScopeDepot \<and>
                 (\<forall>p \<in> set (depot_scope sc). \<not> in_scope_of p (literalPrefix s))))"

lemma validateInt_denied:
  "(\<exists>e. validateInt a raw = Inl e \<and> deny_reason e = q) \<longleftrightarrow>
     (case int_value raw of None \<Rightarrow> q = ReasonArgumentType
      | Some i \<Rightarrow> q = ReasonArgumentRange \<and> (i < min_val a \<or> max_val a < i))"
  by (auto simp: validateInt_def int_value_def split: option.split json.split)

lemma validateBool_denied:
  "(\<exists>e. validateBool a raw = Inl e \<and> deny_reason e = q) \<longleftrightarrow>
     (case unmarshal_into as_bool False raw of None \<Rightarrow> q = ReasonArgumentType
      | Some b \<Rightarrow> q = ReasonContentVerbOff \<and> must_be_false a \<and> b)"
  by (auto simp: validateBool_def split: option.split)

lemma validateDepotPath_denied:
  "validateDepotPath n s = None \<longleftrightarrow> path_syntax s"
  "validateDepotPath n s = Some e \<Longrightarrow> deny_reason e = ReasonArgumentPattern"
  by (auto simp: validateDepotPath_def path_syntax_def ContainsAny_iff list_ex_iff split: if_splits)

lemma check_pattern_denied:
  "check_pattern a s = None \<longleftrightarrow> \<not> (\<exists>re. pattern a = Some re \<and> \<not> MatchString re s)"
  "check_pattern a s = Some e \<Longrightarrow> deny_reason e = ReasonArgumentPattern"
  by (auto simp: check_pattern_def split: option.splits if_splits)

lemma checkScope_denied:
  assumes "arg_scope a \<in> {ScopeNone, ScopeDepot}"
  shows "(\<exists>e. checkScope a s sc = Some e \<and> deny_reason e = q) \<longleftrightarrow>
    q = ReasonOutOfScopePath \<and> arg_scope a = ScopeDepot \<and>
      (\<forall>p \<in> set (depot_scope sc). \<not> in_scope_of p (literalPrefix s))"
  using assms by (auto simp: checkScope_def withinPrefixList_iff)

lemma validateString_denied:
  assumes "arg_scope a \<in> {ScopeNone, ScopeDepot}" "unmarshal_into as_string [] raw = Some s"
  shows "(\<exists>e. validateString a raw sc = Inl e \<and> deny_reason e = q) \<longleftrightarrow>
    (if 0 < max_len a \<and> max_len a < int (length s) then q = ReasonArgumentRange
     else if set s \<inter> {CHR 0x00, CHR 0x0A, CHR 0x0D} \<noteq> {} \<or>
       (arg_kind a = KindDepotPath \<and> \<not> path_syntax s) \<or>
       (\<exists>re. pattern a = Some re \<and> \<not> MatchString re s) then q = ReasonArgumentPattern
     else q = ReasonOutOfScopePath \<and> arg_scope a = ScopeDepot \<and>
       (\<forall>p \<in> set (depot_scope sc). \<not> in_scope_of p (literalPrefix s)))"
proof -
  define path where "path = (if arg_kind a = KindDepotPath then validateDepotPath (arg_name a) s else None)"
  have ctl: "ContainsAny s [CHR 0x00, CHR 0x0A, CHR 0x0D] \<longleftrightarrow> set s \<inter> {CHR 0x00, CHR 0x0A, CHR 0x0D} \<noteq> {}"
    by (simp add: ContainsAny_iff)
  have form: "path = None \<longleftrightarrow> \<not> (arg_kind a = KindDepotPath \<and> \<not> path_syntax s)"
    by (simp add: path_def validateDepotPath_denied(1))
  have vs: "validateString a raw sc =
      (if max_len a > 0 \<and> int (length s) > max_len a then
         Inl (deny ReasonArgumentRange ''%s exceeds %d bytes'' [FStr (arg_name a), FInt (max_len a)])
       else if ContainsAny s [CHR 0x00, CHR 0x0A, CHR 0x0D] then
         Inl (deny ReasonArgumentPattern ''%s contains a control character'' [FStr (arg_name a)])
       else (case path of Some e \<Rightarrow> Inl e
         | None \<Rightarrow> (case check_pattern a s of Some e \<Rightarrow> Inl e
           | None \<Rightarrow> (case checkScope a s sc of Some e \<Rightarrow> Inl e | None \<Rightarrow> Inr (VString s)))))"
    by (simp only: validateString_def assms(2) option.case path_def)
  consider (early) "max_len a > 0 \<and> int (length s) > max_len a \<or> ContainsAny s [CHR 0x00, CHR 0x0A, CHR 0x0D]"
    | (form) e where "\<not> (max_len a > 0 \<and> int (length s) > max_len a)"
        "\<not> ContainsAny s [CHR 0x00, CHR 0x0A, CHR 0x0D]" "path = Some e \<or> path = None \<and> check_pattern a s = Some e"
    | (scope) "\<not> (max_len a > 0 \<and> int (length s) > max_len a)"
        "\<not> ContainsAny s [CHR 0x00, CHR 0x0A, CHR 0x0D]" "path = None" "check_pattern a s = None"
    by (cases path; cases "check_pattern a s") blast+
  then show ?thesis
  proof cases
    case early
    then show ?thesis unfolding vs ctl [symmetric] by auto
  next
    case (form e)
    have q: "deny_reason e = ReasonArgumentPattern"
      using form(3) validateDepotPath_denied(2) check_pattern_denied(2) by (auto simp: path_def split: if_splits)
    have bad: "(arg_kind a = KindDepotPath \<and> \<not> path_syntax s) \<or> (\<exists>re. pattern a = Some re \<and> \<not> MatchString re s)"
      using form(3) \<open>path = None \<longleftrightarrow> _\<close> check_pattern_denied(1) [of a s] by auto
    have "validateString a raw sc = Inl e" using form by (auto simp: vs)
    then show ?thesis using form(1,2) q bad unfolding ctl by auto
  next
    case scope
    have "\<not> (arg_kind a = KindDepotPath \<and> \<not> path_syntax s)" "\<not> (\<exists>re. pattern a = Some re \<and> \<not> MatchString re s)"
      using scope(3,4) form check_pattern_denied(1) [of a s] by simp_all
    moreover have "(\<exists>e. validateString a raw sc = Inl e \<and> deny_reason e = q) \<longleftrightarrow>
        (\<exists>e. checkScope a s sc = Some e \<and> deny_reason e = q)"
      using scope by (auto simp: vs split: option.splits)
    ultimately show ?thesis using scope(1,2) checkScope_denied [OF assms(1), of s sc q] unfolding ctl by auto
  qed
qed

lemma validate_denied:
  assumes "arg_scope a \<in> {ScopeNone, ScopeDepot}"
  shows "(\<exists>e. validate a raw sc = Inl e \<and> deny_reason e = q) \<longleftrightarrow> denied_for a raw sc q"
proof -
  have str: "(\<exists>e. validateString a raw sc = Inl e \<and> deny_reason e = q) \<longleftrightarrow> denied_for a raw sc q"
    if "arg_kind a \<in> {KindString, KindDepotPath}"
  proof (cases "unmarshal_into as_string [] raw")
    case None
    then show ?thesis using that by (auto simp: validateString_def denied_for_def)
  next
    case (Some s)
    then show ?thesis using that
      unfolding validateString_denied [OF assms Some] denied_for_def by (auto split: kind.split)
  qed
  show ?thesis
  proof (cases "arg_kind a")
    case KindInt
    then show ?thesis by (simp add: validate_def denied_for_def validateInt_denied)
  next
    case KindBool
    then show ?thesis by (simp add: validate_def denied_for_def validateBool_denied)
  next
    case (KindOther k)
    then show ?thesis by (auto simp: validate_def denied_for_def)
  qed (use str in \<open>simp_all add: validate_def\<close>)
qed

text \<open>The first argument of the schema that is missing, or whose text a reason applies to.\<close>

definition first_denied :: "arg list \<Rightarrow> (string \<times> string) list \<Rightarrow> scopes \<Rightarrow> deny_reason \<Rightarrow> bool" where
  "first_denied as kv sc q \<longleftrightarrow>
     (\<exists>before a after. as = before @ a # after \<and>
        (\<forall>b \<in> set before. case last_of kv (arg_name b) of
           None \<Rightarrow> \<not> required b | Some raw \<Rightarrow> \<forall>q. \<not> denied_for b raw sc q) \<and>
        (case last_of kv (arg_name a) of
           None \<Rightarrow> required a \<and> q = ReasonMissingArgument | Some raw \<Rightarrow> denied_for a raw sc q))"

lemma first_denied_here:
  "(case last_of kv (arg_name a) of None \<Rightarrow> required a \<and> q = ReasonMissingArgument
    | Some raw \<Rightarrow> denied_for a raw sc q) \<Longrightarrow> first_denied (a # as) kv sc q"
  unfolding first_denied_def by (intro exI [of _ "[]"] exI [of _ a] exI [of _ as]) simp

lemma first_denied_later:
  assumes "first_denied as kv sc q"
    and "case last_of kv (arg_name a) of None \<Rightarrow> \<not> required a | Some raw \<Rightarrow> \<forall>q. \<not> denied_for a raw sc q"
  shows "first_denied (a # as) kv sc q"
proof -
  from assms(1) obtain before b after where b: "as = before @ b # after"
      "\<forall>b \<in> set before. case last_of kv (arg_name b) of
         None \<Rightarrow> \<not> required b | Some raw \<Rightarrow> \<forall>q. \<not> denied_for b raw sc q"
      "case last_of kv (arg_name b) of
         None \<Rightarrow> required b \<and> q = ReasonMissingArgument | Some raw \<Rightarrow> denied_for b raw sc q"
    unfolding first_denied_def by blast
  then show ?thesis unfolding first_denied_def using assms(2)
    by (intro exI [of _ "a # before"] exI [of _ b] exI [of _ after]) simp
qed

lemma validate_loop_denied:
  assumes "validate_loop vn as kv sc out = Inl e" "\<forall>a \<in> set as. arg_scope a \<in> {ScopeNone, ScopeDepot}"
  shows "first_denied as kv sc (deny_reason e)"
  using assms
proof (induction as arbitrary: out)
  case (Cons a as)
  note den = validate_denied [of a _ sc]
  show ?case
  proof (cases "last_of kv (arg_name a)")
    case None
    show ?thesis
    proof (cases "required a")
      case True
      then show ?thesis using None Cons.prems(1) by (intro first_denied_here) auto
    next
      case False
      then show ?thesis using None Cons by (intro first_denied_later) auto
    qed
  next
    case (Some raw)
    show ?thesis
    proof (cases "validate a raw sc")
      case (Inl e')
      then show ?thesis using Some Cons.prems den [of raw] by (intro first_denied_here) auto
    next
      case (Inr x)
      then show ?thesis using Some Cons den [of raw] by (intro first_denied_later) auto
    qed
  qed
qed simp

lemma compiled_scopes:
  "v \<in> set Vocabulary \<Longrightarrow> compiled v \<Longrightarrow>
    \<forall>a \<in> set (verb_args v). arg_scope a \<in> {ScopeNone, ScopeDepot}"
proof -
  have "list_all (\<lambda>v. compiled v \<longrightarrow> list_all (\<lambda>a. arg_scope a = ScopeNone \<or> arg_scope a = ScopeDepot)
      (verb_args v)) Vocabulary" by code_simp
  then show "v \<in> set Vocabulary \<Longrightarrow> compiled v \<Longrightarrow>
    \<forall>a \<in> set (verb_args v). arg_scope a \<in> {ScopeNone, ScopeDepot}" by (simp add: list_all_iff)
qed

lemma CompiledVerbs_iff: "name \<in> set CompiledVerbs \<longleftrightarrow> (\<exists>v. Lookup name = Some v \<and> compiled v)"
  using Lookup_SomeD Lookup_in by (auto simp: CompiledVerbs_def)

lemma compiled_not_content: "Lookup name = Some v \<Longrightarrow> compiled v \<Longrightarrow> verb_class v \<noteq> ClassContent"
  using Lookup_SomeD Vocabulary_safe by (auto simp: verb_safe_def)

text \<open>C16. Which reason a denial gives, return by return in the order of the code: an unknown
  name; a verb that is not compiled; a tool that is not configured; arguments that are
  no JSON object; a key that is not in the schema, before any value is looked at; then
  the first argument in schema order that is missing or whose text fails, with the
  reason of its first failing check: type, then length or range, then form (control
  characters, path syntax, pattern), then depot scope, or an enabled option that must be
  off. No other denial exists.\<close>

theorem resolve_reason_order:
  assumes "Resolve name raw sc tools = Inl e"
  shows "case Lookup name of
     None \<Rightarrow> deny_reason e = ReasonUnknownVerb
   | Some v \<Rightarrow>
       if name \<notin> set CompiledVerbs then deny_reason e = ReasonVerbNotCompiled
       else if verb_tool v \<noteq> [] \<and> \<not> tools (verb_tool v) then deny_reason e = ReasonToolNotConfigured
       else (case supplied_args raw of
               None \<Rightarrow> deny_reason e = ReasonMalformedArgs
             | Some kv \<Rightarrow>
                 if \<exists>k \<in> fst ` set kv. k \<notin> arg_name ` set (verb_args v)
                 then deny_reason e = ReasonUnknownArgument
                 else first_denied (verb_args v) kv sc (deny_reason e))"
proof (cases "Lookup name")
  case None
  then show ?thesis using assms by (auto simp: Resolve_def)
next
  case (Some v)
  note v = Some Lookup_SomeD [OF Some]
  have comp: "name \<in> set CompiledVerbs \<longleftrightarrow> compiled v" using CompiledVerbs_iff Some by auto
  show ?thesis
  proof (cases "compiled v \<and> (verb_tool v = [] \<or> tools (verb_tool v))")
    case False
    then show ?thesis using assms Some comp compiled_not_content [OF Some]
      by (auto simp: Resolve_def split: if_splits)
  next
    case True
    then have va: "validateArgs v raw sc = Inl e"
      using assms compiled_not_content [OF Some] by (auto simp: Resolve_def Some split: sum.splits)
    show ?thesis
    proof (cases "supplied_args raw")
      case None
      then show ?thesis using va True Some comp by (auto simp: validateArgs_def)
    next
      case (Some kv)
      show ?thesis
      proof (cases "find (\<lambda>k. k \<notin> set (map arg_name (verb_args v))) (map fst kv)")
        case None
        then have "first_denied (verb_args v) kv sc (deny_reason e)"
          using va Some validate_loop_denied compiled_scopes v True by (auto simp: validateArgs_def)
        moreover have "\<not> (\<exists>k \<in> fst ` set kv. k \<notin> arg_name ` set (verb_args v))"
          using None by (auto simp: find_None_iff)
        ultimately show ?thesis using True Some v(1) comp by auto
      next
        case (Some k)
        then have "k \<in> fst ` set kv" "k \<notin> arg_name ` set (verb_args v)" by (auto simp: find_Some_iff)
        moreover have "deny_reason e = ReasonUnknownArgument"
          using va Some \<open>supplied_args raw = Some kv\<close> by (auto simp: validateArgs_def)
        ultimately show ?thesis using True \<open>supplied_args raw = Some kv\<close> v(1) comp by auto
      qed
    qed
  qed
qed

theorem resolve_reason_order_witness:
  "\<exists>e. Resolve ''p4.describe'' ''{}'' game_scope (\<lambda>_. True) = Inl e \<and>
     deny_reason e = ReasonMissingArgument"
proof -
  have none: "supplied_args ''{}'' = Some []"
    by (simp add: supplied_args_def decode_raw_map_def decode_next_def skip_ws_def is_space_def max_nesting_def)
  obtain e where r: "Resolve ''p4.describe'' ''{}'' game_scope (\<lambda>_. True) = Inl e"
    by (simp add: Resolve_def Lookup_live) (simp add: validateArgs_def none describe_verb_def zero_verb_def zero_arg_def)
  have "''p4.describe'' \<in> set CompiledVerbs"
    unfolding CompiledVerbs_def compiled_list by simp
  with resolve_reason_order [OF r] have "first_denied (verb_args describe_verb) [] game_scope (deny_reason e)"
    by (simp add: Lookup_live none)
  moreover obtain a as where "verb_args describe_verb = a # as" "required a"
    by (simp add: describe_verb_def)
  ultimately have "deny_reason e = ReasonMissingArgument"
    by (auto simp: first_denied_def Cons_eq_append_conv)
  with r show ?thesis by blast
qed

end
