(* ===== verification/Scope_Properties.thy ===== *)
theory Scope_Properties
  imports Argument_Properties
begin

text \<open>
  What a depot scope keeps out, where it fails to, and what the literal prefix is.
\<close>

subsection \<open>An instance of the matching laws\<close>

text \<open>
  The two wildcards as Perforce documents them: a star matches within a path segment,
  three dots match anything. The properties assume only the laws; their witnesses
  use this instance.
\<close>

fun wildcard_match :: "string \<Rightarrow> string \<Rightarrow> bool" where
  "wildcard_match [] f \<longleftrightarrow> f = []"
| "wildcard_match (c # p) f \<longleftrightarrow>
     (if HasPrefix (c # p) ''...'' then
        list_ex (\<lambda>n. wildcard_match (drop 2 p) (drop n f)) [0..<Suc (length f)]
      else if c = CHR ''*'' then
        list_ex (\<lambda>n. CHR ''/'' \<notin> set (take n f) \<and> wildcard_match p (drop n f)) [0..<Suc (length f)]
      else f \<noteq> [] \<and> hd f = c \<and> wildcard_match p (tl f))"

lemma special_at_Suc: "special_at (c # p) (Suc i) = special_at p i"
  by (simp add: special_at_def)

lemma not_special_0:
  "\<not> special_at (c # p) 0 \<Longrightarrow> c \<noteq> CHR ''*'' \<and> \<not> HasPrefix (c # p) ''...''"
  by (auto simp: special_at_def)

lemma wildcard_match_literal: "literal_matching wildcard_match"
proof -
  have "HasPrefix f w" if "\<forall>i < length w. \<not> special_at (w @ x) i" "wildcard_match (w @ x) f" for w x f
    using that
  proof (induction w arbitrary: f)
    case (Cons c w)
    have "\<not> special_at (w @ x) i" if "i < length w" for i
      using Cons.prems(1) [rule_format, of "Suc i"] that by (simp add: special_at_Suc)
    moreover have "c \<noteq> CHR ''*''" "\<not> HasPrefix (c # w @ x) ''...''"
      using Cons.prems(1) [rule_format, of 0] not_special_0 [of c "w @ x"] by simp_all
    ultimately show ?case using Cons.IH [of "tl f"] Cons.prems(2) by (cases f) (auto split: if_splits)
  qed simp
  then show ?thesis by (simp add: literal_matching_def)
qed

lemma wildcard_match_dots: "dots_matching wildcard_match"
proof -
  have "wildcard_match (w @ ''...'') (w @ x)" if "\<forall>i < length w. \<not> special_at (w @ ''...'') i" for w x
    using that
  proof (induction w)
    case Nil
    have "wildcard_match (drop 2 ''..'') (drop (length x) x)" by simp
    then have "list_ex (\<lambda>n. wildcard_match (drop 2 ''..'') (drop n x)) [0..<Suc (length x)]"
      unfolding list_ex_iff by (intro bexI [of _ "length x"]) simp_all
    then show ?case by simp
  next
    case (Cons c w)
    have "\<not> special_at (w @ ''...'') i" if "i < length w" for i
      using Cons.prems(1) [rule_format, of "Suc i"] that by (simp add: special_at_Suc)
    moreover have "c \<noteq> CHR ''*''" "\<not> HasPrefix (c # w @ ''...'') ''...''"
      using Cons.prems(1) [rule_format, of 0] not_special_0 [of c "w @ ''...''"] by simp_all
    moreover have "wildcard_match (c # w @ ''...'') (c # w @ x) = wildcard_match (w @ ''...'') (w @ x)"
      using calculation(2,3) by (subst wildcard_match.simps(2)) (simp only: if_False list.sel simp_thms list.distinct)
    ultimately show ?case using Cons.IH by simp
  qed
  then show ?thesis by (simp add: dots_matching_def)
qed

subsection \<open>The segment boundary\<close>

lemma game_directory: "directory_scopes (depot_scope game_scope)"
  by (simp add: directory_scopes_def game_scope_def wildcard_free_def Contains_def HasSuffix_def)

text \<open>The segment boundary: a path that merely extends a scope's name, such as
  \<open>//depot/gamesecret/x\<close> under the only scope \<open>//depot/game/\<close>, is denied as out of
  scope, with or without wildcards after the point where it leaves the name.\<close>

theorem sibling_denied:
  assumes "depot_scope sc = [q @ ''/'']" "arg_scope a = ScopeDepot"
    and "HasPrefix (literalPrefix s) (q @ [c])" "c \<noteq> CHR ''/''"
  shows "checkScope a s sc = Some (deny ReasonOutOfScopePath ''%s is outside depot_scope'' [FStr (arg_name a)])"
proof -
  obtain r where r: "literalPrefix s = q @ c # r" using assms(3) by (auto simp: HasPrefix_iff)
  have "\<not> in_scope_of (q @ ''/'') (literalPrefix s)"
    using in_scope_boundary [of q "c # r"] assms(4) unfolding r by auto
  then have "\<not> withinPrefixList (literalPrefix s) (depot_scope sc)"
    by (simp add: withinPrefixList_iff assms(1))
  then show ?thesis by (simp add: checkScope_def assms(2))
qed

theorem sibling_denied_witness:
  "checkScope changes_path ''//depot/gamesecret/...'' game_scope \<noteq> None"
proof -
  have "literalPrefix ''//depot/gamesecret/...'' = ''//depot/gamesecret/''" by (simp add: literalPrefix_def)
  then show ?thesis
    using sibling_denied [of game_scope "''//depot/game''" changes_path "''//depot/gamesecret/...''" "CHR ''s''"]
    by (simp add: game_scope_def changes_path_def zero_arg_def)
qed

subsection \<open>Where the boundary leaks\<close>

lemma glued_path_ok:
  assumes "path_ok ps root" "root @ ''/'' \<in> set ps" "wildcard_free root" "length root \<le> 1021"
    and "last root \<noteq> CHR ''.''"
  shows "path_ok ps (root @ ''...'')"
proof -
  note r = assms(1) [unfolded path_ok_def]
  obtain t where t: "root = ''//'' @ t" using r by (auto simp: HasPrefix_iff)
  have sep: "CHR ''/'' \<notin> set ''...''" by simp
  have "set (Split (TrimPrefix (root @ ''...'') ''//'') CHR ''/'') \<inter> {''.'', ''..''} = {}"
  proof -
    have "Split (t @ ''...'') CHR ''/'' = butlast (Split t CHR ''/'') @ [last (Split t CHR ''/'') @ ''...'']"
      by (rule Split_snoc [OF sep])
    moreover have "set (Split t CHR ''/'') \<inter> {''.'', ''..''} = {}" using r t by (simp add: TrimPrefix_def)
    ultimately show ?thesis
      using in_set_butlastD [of _ "Split t CHR ''/''"] by (auto simp: t TrimPrefix_def append_eq_Cons_conv)
  qed
  moreover have "literalPrefix (root @ ''...'') = root"
    using literalPrefix_glued [OF assms(3) _ assms(5)] t by simp
  moreover have "in_scope_of (root @ ''/'') root" by (simp add: in_scope_of_def)
  ultimately show ?thesis using r assms(2,4) t by (auto simp: path_ok_def)
qed

text \<open>C19. The exception of the containment is real for every scope: whenever the root of a
  scope (the scope without its final slash) is itself an acceptable path of at most
  1021 bytes that does not end in a dot, the root with three dots glued to it is
  accepted and handed to the verb; and it matches every file whose name continues the
  root in whatever way, so also those of each sibling directory that the boundary rule
  exists to exclude.\<close>

theorem scope_root_wildcard_escapes:
  assumes "path_ok (depot_scope sc) root" "root @ ''/'' \<in> set (depot_scope sc)" "wildcard_free root"
    and "length root \<le> 1021" "last root \<noteq> CHR ''.''" "valid_utf8 (root @ ''...'')" "tools ''perforce''"
    and "dots_matching matches"
  shows "Resolve ''p4.changes'' (json_object [(''path'', quote_json (root @ ''...''))]) sc tools =
      Inr (changes_verb, [''path'' \<mapsto> VString (root @ ''...'')]) \<and>
    (\<forall>x. matches (root @ ''...'') (root @ x)) \<and>
    (\<forall>c x. c \<noteq> CHR ''/'' \<longrightarrow>
      \<not> HasPrefix (root @ c # x) (root @ ''/'') \<and> \<not> in_scope_of (root @ ''/'') (root @ c # x))"
proof (intro conjI allI impI)
  note ok = glued_path_ok [OF assms(1-5)]
  show "Resolve ''p4.changes'' (json_object [(''path'', quote_json (root @ ''...''))]) sc tools =
      Inr (changes_verb, [''path'' \<mapsto> VString (root @ ''...'')])"
    using changes_accepts [where tools = tools, OF assms(6) ok] assms(7) by blast
  have "root \<noteq> []" using assms(1) by (auto simp: path_ok_def)
  then have lp: "literalPrefix (root @ ''...'') = root" using literalPrefix_glued assms(3,5) by blast
  have "\<not> special_at (root @ ''...'') i" if "i < length root" for i
  proof -
    have "\<not> HasPrefix (drop i (root @ ''...'')) ''...''"
      using literalPrefix_no_dots_at [of i "root @ ''...''"] that unfolding lp by blast
    moreover have "set root \<inter> {CHR ''*'', CHR ''%'', CHR ''@'', CHR ''#''} = {}"
      using assms(1,3) by (auto simp: path_ok_def wildcard_free_def)
    then have "root ! i \<notin> {CHR ''*'', CHR ''%'', CHR ''@'', CHR ''#''}" using nth_mem [OF that] by blast
    ultimately show ?thesis using that by (simp add: special_at_def nth_append)
  qed
  then show "matches (root @ ''...'') (root @ x)" for x using assms(8) unfolding dots_matching_def by blast
  show "\<not> HasPrefix (root @ c # x) (root @ ''/'')" if "c \<noteq> CHR ''/''" for c x
    using that by (simp add: HasPrefix_def)
  show "\<not> in_scope_of (root @ ''/'') (root @ c # x)" if "c \<noteq> CHR ''/''" for c x
    using in_scope_boundary [of root "c # x"] that by auto
qed

theorem scope_root_wildcard_escapes_witness:
  "is_ok (Resolve ''p4.changes'' (json_object [(''path'', quote_json ''//depot/game...'')]) game_scope
     (\<lambda>t. t = ''perforce'')) \<and>
   wildcard_match ''//depot/game...'' ''//depot/gamesecret/plan.txt'' \<and>
   \<not> HasPrefix ''//depot/gamesecret/plan.txt'' ''//depot/game/''"
proof -
  let ?r = "''//depot/game''"
  have root: "path_ok (depot_scope game_scope) ?r"
    by (simp add: path_ok_def game_scope_def in_scope_of_def literalPrefix_def TrimPrefix_def
        HasSuffix_def Split.simps)
  have free: "wildcard_free ?r" by (simp add: wildcard_free_def Contains_def)
  have utf8: "valid_utf8 (?r @ ''...'')" by (simp add: valid_utf8_ascii)
  have scope: "?r @ ''/'' \<in> set (depot_scope game_scope)" by (simp add: game_scope_def)
  note escape = scope_root_wildcard_escapes [OF root scope free _ _ utf8 _ wildcard_match_dots,
      where tools = "\<lambda>t. t = ''perforce''"]
  from escape have "wildcard_match (?r @ ''...'') (?r @ ''secret/plan.txt'')" by simp
  with escape show ?thesis by simp
qed

subsection \<open>The literal prefix\<close>

text \<open>What the literal prefix is: a prefix of the path that never holds the
  \<open>...\<close> wildcard; when it holds no star either, it is exactly the text before the
  first wildcard, or the whole path when there is none.\<close>

theorem literal_prefix_exact:
  "HasPrefix s (literalPrefix s) \<and> \<not> Contains (literalPrefix s) ''...'' \<and>
   (CHR ''*'' \<in> set (literalPrefix s) \<or>
    (wildcard_free (literalPrefix s) \<and>
     (literalPrefix s = s \<or>
      (\<exists>r. s = literalPrefix s @ r \<and> (HasPrefix r ''*'' \<or> HasPrefix r ''...'')))))"
  using literalPrefix_prefix literalPrefix_no_dots literalPrefix_exact by blast

text \<open>The other case happens: a dot before a star sends the function to the
  first \<open>...\<close> of the path, and the prefix it returns still contains the star.\<close>

lemma literal_prefix_keeps_star:
  "literalPrefix ''//a.b/*/...'' = ''//a.b/*/'' \<and> \<not> wildcard_free (literalPrefix ''//a.b/*/...'')"
  by (simp add: literalPrefix_def wildcard_free_def)

end
