(* ===== verification/Config.thy ===== *)
theory Config
  imports Path_Scope
begin

unbundle bit_operations_syntax

text \<open>
  \<open>internal/config/config.go\<close>: loading, permission-checking and validating
  connector.yml. Parameters: the YAML decoder (\<open>yaml.v3\<close>, with unknown keys refused),
  Go's \<open>url.Parse\<close>, the file system, and the default log directory
  (\<open>filepath.Join\<close> of the file's directory). A duration is its nanoseconds.
\<close>

subsection \<open>The configuration\<close>

record perforce_config =
  p4_enabled :: bool
  p4_binary :: string
  p4_port :: string
  p4_user :: string
  p4_ticket :: string
  p4_ticket_file :: string
  p4_timeout :: int

record teamcity_config =
  tc_enabled :: bool
  tc_url :: string
  tc_token :: string
  tc_token_file :: string
  tc_ca_file :: string
  tc_insecure :: bool
  tc_timeout :: int

record config =
  endpoint :: string
  endpoint_ca_file :: string
  token :: string
  token_file :: string
  connector_id :: string
  log_dir :: string
  max_concurrent :: int
  cfg_scopes :: scopes
  content_verbs :: bool
  perforce :: perforce_config
  teamcity :: teamcity_config
  config_path :: string

record url =
  url_scheme :: string
  url_host :: string
  url_path :: string
  url_escaped_path :: string
  url_raw_query :: string
  url_has_user :: bool
  url_fragment :: string

type_synonym url_parser = "string \<Rightarrow> url option"

record file_stat =
  is_dir :: bool
  perm :: "32 word"

record file_system =
  stat :: "string \<Rightarrow> file_stat option"
  read_file :: "string \<Rightarrow> string option"

datatype config_error =
    CannotStat string | IsDirectory string | BadMode string "32 word" | CannotRead string
  | BadYaml string | BothSet string
  | EndpointRequired | EndpointUnparsable | ErrInsecureEndpoint string | EndpointNoHost
  | EndpointQuery | EndpointUserinfo | EndpointFragment
  | TokenRequired | TokenShape | MaxConcurrentRange int
  | PerforceIncomplete | PerforceUnscoped | ScopeNotDepot string | ScopeWildcard string
  | TeamCityIncomplete | TeamCityURL string

subsection \<open>Loading\<close>

definition tokenPattern :: regex where
  "tokenPattern =
     lit ''bsc_'' @
     [([(CHR ''a'', CHR ''z''), (CHR ''0'', CHR ''9'')], 1, 1),
      ([(CHR ''a'', CHR ''z''), (CHR ''0'', CHR ''9''), (CHR ''-'', CHR ''-'')], 0, 62)] @
     lit ''_'' @
     [([(CHR ''A'', CHR ''Z''), (CHR ''a'', CHR ''z''), (CHR ''2'', CHR ''7'')], 32, 128)]"

text \<open>The mask is octal 077: any group or other bit.\<close>

definition checkSecretFileMode :: "file_system \<Rightarrow> string \<Rightarrow> config_error option" where
  "checkSecretFileMode fs p =
     (case stat fs p of
        None \<Rightarrow> Some (CannotStat p)
      | Some st \<Rightarrow>
          if is_dir st then Some (IsDirectory p)
          else if perm st AND 0x3F \<noteq> 0 then Some (BadMode p (perm st))
          else None)"

definition applyDefaults :: "(string \<Rightarrow> string) \<Rightarrow> config \<Rightarrow> config" where
  "applyDefaults logs_beside c =
     c\<lparr>max_concurrent := (if max_concurrent c = 0 then 4 else max_concurrent c),
       perforce := (perforce c)
         \<lparr>p4_binary := (if p4_binary (perforce c) = [] then ''p4'' else p4_binary (perforce c)),
          p4_timeout := (if p4_timeout (perforce c) = 0 then 20 * 10 ^ 9 else p4_timeout (perforce c))\<rparr>,
       teamcity := (teamcity c)
         \<lparr>tc_timeout := (if tc_timeout (teamcity c) = 0 then 10 * 10 ^ 9 else tc_timeout (teamcity c))\<rparr>,
       log_dir := (if log_dir c = [] then logs_beside (config_path c) else log_dir c)\<rparr>"

text \<open>One of the three \<open>*_file\<close> indirections, and the three in order.\<close>

definition resolve_secret :: "file_system \<Rightarrow> string \<Rightarrow> string \<Rightarrow> string \<Rightarrow> config_error + string" where
  "resolve_secret fs name v file =
     (if file = [] then Inr v
      else if v \<noteq> [] then Inl (BothSet name)
      else (case checkSecretFileMode fs file of
              Some e \<Rightarrow> Inl e
            | None \<Rightarrow> (case read_file fs file of
                         None \<Rightarrow> Inl (CannotRead name)
                       | Some b \<Rightarrow> Inr (TrimSpace b))))"

definition resolveSecretFiles :: "file_system \<Rightarrow> config \<Rightarrow> config_error + config" where
  "resolveSecretFiles fs c =
     bind_result (resolve_secret fs ''token'' (token c) (token_file c)) (\<lambda>t.
     bind_result (resolve_secret fs ''perforce.ticket'' (p4_ticket (perforce c)) (p4_ticket_file (perforce c))) (\<lambda>k.
     bind_result (resolve_secret fs ''teamcity.token'' (tc_token (teamcity c)) (tc_token_file (teamcity c))) (\<lambda>u.
     Inr (c\<lparr>token := t, perforce := (perforce c)\<lparr>p4_ticket := k\<rparr>,
            teamcity := (teamcity c)\<lparr>tc_token := u\<rparr>\<rparr>))))"

definition validate_endpoint :: "url_parser \<Rightarrow> config \<Rightarrow> config_error option" where
  "validate_endpoint parse_url c =
     (if endpoint c = [] then Some EndpointRequired
      else (case parse_url (endpoint c) of
              None \<Rightarrow> Some EndpointUnparsable
            | Some u \<Rightarrow>
                if url_scheme u \<noteq> ''wss'' then Some (ErrInsecureEndpoint (url_scheme u))
                else if url_host u = [] then Some EndpointNoHost
                else if url_raw_query u \<noteq> [] \<or> Contains (endpoint c) ''?'' then Some EndpointQuery
                else if url_has_user u then Some EndpointUserinfo
                else if url_fragment u \<noteq> [] then Some EndpointFragment
                else None))"

fun normalize_scopes :: "string list \<Rightarrow> config_error + string list" where
  "normalize_scopes [] = Inr []"
| "normalize_scopes (p # ps) =
     (if \<not> HasPrefix p ''//'' then Inl (ScopeNotDepot p)
      else if ContainsAny p ''*'' \<or> Contains p ''...'' then Inl (ScopeWildcard p)
      else (let p' = (if \<not> HasSuffix p ''/'' then p @ ''/'' else p)
            in bind_result (normalize_scopes ps) (\<lambda>qs. Inr (p' # qs))))"

definition validate_perforce :: "config \<Rightarrow> config_error + config" where
  "validate_perforce c =
     (if \<not> p4_enabled (perforce c) then Inr c
      else if p4_port (perforce c) = [] \<or> p4_user (perforce c) = [] then Inl PerforceIncomplete
      else if depot_scope (cfg_scopes c) = [] then Inl PerforceUnscoped
      else bind_result (normalize_scopes (depot_scope (cfg_scopes c)))
             (\<lambda>ps. Inr (c\<lparr>cfg_scopes := (cfg_scopes c)\<lparr>depot_scope := ps\<rparr>\<rparr>)))"

definition validate_teamcity :: "url_parser \<Rightarrow> config \<Rightarrow> config_error option" where
  "validate_teamcity parse_url c =
     (if \<not> tc_enabled (teamcity c) then None
      else if tc_url (teamcity c) = [] \<or> tc_token (teamcity c) = [] then Some TeamCityIncomplete
      else (case parse_url (tc_url (teamcity c)) of
              None \<Rightarrow> Some (TeamCityURL (tc_url (teamcity c)))
            | Some u \<Rightarrow>
                if url_host u = [] \<or> (url_scheme u \<noteq> ''http'' \<and> url_scheme u \<noteq> ''https'')
                then Some (TeamCityURL (tc_url (teamcity c))) else None))"

definition Validate :: "url_parser \<Rightarrow> config \<Rightarrow> config_error + config" where
  "Validate parse_url c =
     (case validate_endpoint parse_url c of
        Some e \<Rightarrow> Inl e
      | None \<Rightarrow>
          if token c = [] then Inl TokenRequired
          else if \<not> MatchString tokenPattern (token c) then Inl TokenShape
          else if max_concurrent c < 1 \<or> max_concurrent c > 32 then
            Inl (MaxConcurrentRange (max_concurrent c))
          else bind_result (validate_perforce c) (\<lambda>c'.
            case validate_teamcity parse_url c' of Some e \<Rightarrow> Inl e | None \<Rightarrow> Inr c'))"

record load_env =
  env_fs :: file_system
  env_yaml :: "string \<Rightarrow> config option"
  env_url :: url_parser
  env_logs :: "string \<Rightarrow> string"

definition Load :: "load_env \<Rightarrow> string \<Rightarrow> config_error + config" where
  "Load w path =
     (case checkSecretFileMode (env_fs w) path of
        Some e \<Rightarrow> Inl e
      | None \<Rightarrow>
          (case read_file (env_fs w) path of
             None \<Rightarrow> Inl (CannotRead path)
           | Some raw \<Rightarrow>
               (case env_yaml w raw of
                  None \<Rightarrow> Inl (BadYaml path)
                | Some c \<Rightarrow>
                    bind_result
                      (resolveSecretFiles (env_fs w) (applyDefaults (env_logs w) (c\<lparr>config_path := path\<rparr>)))
                      (Validate (env_url w)))))"

subsection \<open>Accessors\<close>

definition Tools :: "config \<Rightarrow> (string \<times> bool) list" where
  "Tools c = [(''perforce'', p4_enabled (perforce c)), (''teamcity'', tc_enabled (teamcity c))]"

definition tool_enabled :: "config \<Rightarrow> string \<Rightarrow> bool" where
  "tool_enabled c t \<longleftrightarrow> map_of (Tools c) t = Some True"

definition IntegrationID :: "config \<Rightarrow> string" where
  "IntegrationID c =
     (let parts = Split (token c) CHR ''_'' in if length parts < 3 then [] else parts ! 1)"

text \<open>\<open>%v\<close> of a string slice, and \<open>%t\<close>.\<close>

definition show_strings :: "string list \<Rightarrow> string" where
  "show_strings ss = ''['' @ Join ss CHR '' '' @ '']''"

definition show_bool :: "bool \<Rightarrow> string" where
  "show_bool b = (if b then ''true'' else ''false'')"

definition Redacted :: "config \<Rightarrow> string" where
  "Redacted c =
     ''endpoint='' @ endpoint c @ '' connector_id='' @ connector_id c @ '' integration_id='' @
       IntegrationID c @ '' max_concurrent='' @ Itoa (max_concurrent c) @ [CHR 0x0A] @
     ''token=bsc_'' @ IntegrationID c @ ''_[redacted] log_dir='' @ log_dir c @ [CHR 0x0A] @
     ''scopes.depot_scope='' @ show_strings (depot_scope (cfg_scopes c)) @
       '' allowed_build_types='' @ show_strings (allowed_build_types (cfg_scopes c)) @
       '' repo_allowlist='' @ show_strings (repo_allowlist (cfg_scopes c)) @ [CHR 0x0A] @
     ''perforce.enabled='' @ show_bool (p4_enabled (perforce c)) @ '' port='' @ p4_port (perforce c) @
       '' user='' @ p4_user (perforce c) @ '' ticket=[redacted]'' @ [CHR 0x0A] @
     ''teamcity.enabled='' @ show_bool (tc_enabled (teamcity c)) @ '' url='' @ tc_url (teamcity c) @
       '' token=[redacted]''"

subsection \<open>Facts\<close>

lemma checkSecretFileMode_None_iff:
  "checkSecretFileMode fs p = None \<longleftrightarrow>
     (\<exists>st. stat fs p = Some st \<and> \<not> is_dir st \<and> perm st AND 0x3F = 0)"
  by (auto simp: checkSecretFileMode_def split: option.splits)

lemma resolve_secret_InrD:
  "resolve_secret fs n v f = Inr s \<Longrightarrow>
     (f = [] \<and> s = v) \<or>
     (v = [] \<and> checkSecretFileMode fs f = None \<and> (\<exists>b. read_file fs f = Some b \<and> s = TrimSpace b))"
  by (auto simp: resolve_secret_def split: if_splits option.splits)

lemma normalize_scopes_InrD:
  assumes "normalize_scopes ps = Inr qs"
  shows "list_all2 (\<lambda>p q. q = (if HasSuffix p ''/'' then p else p @ ''/'')) ps qs \<and>
    (\<forall>q \<in> set qs. HasPrefix q ''//'' \<and> HasSuffix q ''/'' \<and> wildcard_free q)"
  using assms
proof (induction ps arbitrary: qs)
  case (Cons p ps)
  then obtain rs where rs: "normalize_scopes ps = Inr rs"
      "qs = (if HasSuffix p ''/'' then p else p @ ''/'') # rs" "HasPrefix p ''//''"
      "CHR ''*'' \<notin> set p" "\<not> Contains p ''...''"
    by (auto simp: Let_def bind_result_Inr_iff ContainsAny_iff split: if_splits)
  have "\<not> Contains (p @ ''/'') ''...''"
  proof
    assume "Contains (p @ ''/'') ''...''"
    then obtain a b where ab: "p @ ''/'' = a @ ''...'' @ b" by (auto simp: Contains_iff)
    then have "b \<noteq> []" by (auto simp: append_eq_append_conv2 Cons_eq_append_conv append_eq_Cons_conv)
    then obtain b' c where "b = b' @ [c]" by (metis rev_exhaust)
    with ab have "p = a @ ''...'' @ b'" by simp
    then show False using rs(5) by (auto simp: Contains_iff)
  qed
  moreover have "HasPrefix (p @ ''/'') ''//''" using rs(3) by (auto simp: HasPrefix_iff)
  ultimately show ?case using Cons.IH [OF rs(1)] rs by (auto simp: wildcard_free_def)
qed simp

lemma tokenPattern_iff:
  "MatchString tokenPattern t \<Longrightarrow>
     \<exists>i s. t = ''bsc_'' @ i @ CHR ''_'' # s \<and> CHR ''_'' \<notin> set i \<and> CHR ''_'' \<notin> set s \<and>
       i \<noteq> [] \<and> length i \<le> 63 \<and> 32 \<le> length s \<and> length s \<le> 128"
proof -
  assume "MatchString tokenPattern t"
  then obtain ps where ps: "t = concat ps" "list_all2 piece_ok tokenPattern ps"
    by (auto simp: MatchString_iff)
  from lit_pieces [OF ps(2) [unfolded tokenPattern_def]] obtain qs where qs: "t = ''bsc_'' @ concat qs"
      "list_all2 piece_ok ([([(CHR ''a'', CHR ''z''), (CHR ''0'', CHR ''9'')], 1, 1),
         ([(CHR ''a'', CHR ''z''), (CHR ''0'', CHR ''9''), (CHR ''-'', CHR ''-'')], 0, 62)] @
         lit ''_'' @ [([(CHR ''A'', CHR ''Z''), (CHR ''a'', CHR ''z''), (CHR ''2'', CHR ''7'')], 32, 128)]) qs"
    using ps(1) by auto
  then obtain h m rs where hm: "qs = h # m # rs"
      "piece_ok ([(CHR ''a'', CHR ''z''), (CHR ''0'', CHR ''9'')], 1, 1) h"
      "piece_ok ([(CHR ''a'', CHR ''z''), (CHR ''0'', CHR ''9''), (CHR ''-'', CHR ''-'')], 0, 62) m"
      "list_all2 piece_ok (lit ''_'' @ [([(CHR ''A'', CHR ''Z''), (CHR ''a'', CHR ''z''), (CHR ''2'', CHR ''7'')], 32, 128)]) rs"
    by (auto simp: list_all2_Cons1)
  from lit_pieces [OF hm(4)] obtain us where us: "concat rs = ''_'' @ concat us"
      "list_all2 piece_ok [([(CHR ''A'', CHR ''Z''), (CHR ''a'', CHR ''z''), (CHR ''2'', CHR ''7'')], 32, 128)] us"
    by blast
  then obtain s where s: "us = [s]"
      "piece_ok ([(CHR ''A'', CHR ''Z''), (CHR ''a'', CHR ''z''), (CHR ''2'', CHR ''7'')], 32, 128) s"
    by (auto simp: list_all2_Cons1)
  have no: "CHR ''_'' \<notin> set p" if "piece_ok (cs, lo, hi) p" "\<not> in_class cs CHR ''_''" for cs lo hi p
    using that by (auto simp: piece_ok_def list_all_iff)
  have "CHR ''_'' \<notin> set h" "CHR ''_'' \<notin> set m" "CHR ''_'' \<notin> set s"
    using no [OF hm(2)] no [OF hm(3)] no [OF s(2)] by (simp_all add: in_class_def)
  moreover have "length h = 1" "length m \<le> 62" "32 \<le> length s" "length s \<le> 128"
    using hm(2,3) s(2) by (auto simp: piece_ok_def)
  moreover have "t = ''bsc_'' @ (h @ m) @ CHR ''_'' # s" using qs(1) hm(1) us(1) s(1) by simp
  ultimately show ?thesis by (intro exI [of _ "h @ m"] exI [of _ s]) auto
qed

lemma IntegrationID_middle:
  assumes "token c = ''bsc_'' @ i @ CHR ''_'' # s" "CHR ''_'' \<notin> set i" "CHR ''_'' \<notin> set s"
  shows "IntegrationID c = i"
proof -
  have "Split (token c) CHR ''_'' = [''bsc'', i, s]"
    using Split_append [of "CHR ''_''" "''bsc''" "i @ CHR ''_'' # s"]
      Split_append [OF assms(2), of s] Split_notin [OF assms(3)] by (simp add: assms(1))
  then show ?thesis by (simp add: IntegrationID_def)
qed

text \<open>Inversion of a successful validation.\<close>

definition scopes_ready :: "config \<Rightarrow> bool" where
  "scopes_ready c \<longleftrightarrow> (p4_enabled (perforce c) \<longrightarrow>
     depot_scope (cfg_scopes c) \<noteq> [] \<and>
     (\<forall>q \<in> set (depot_scope (cfg_scopes c)). HasPrefix q ''//'' \<and> HasSuffix q ''/'' \<and> wildcard_free q))"

lemma validate_perforce_InrD:
  assumes "validate_perforce c = Inr d"
  shows "scopes_ready d \<and> d = c\<lparr>cfg_scopes := (cfg_scopes c)\<lparr>depot_scope := depot_scope (cfg_scopes d)\<rparr>\<rparr> \<and>
    (p4_enabled (perforce c) \<longrightarrow> p4_port (perforce c) \<noteq> [] \<and> p4_user (perforce c) \<noteq> [])"
proof (cases "p4_enabled (perforce c)")
  case True
  then obtain qs where q: "normalize_scopes (depot_scope (cfg_scopes c)) = Inr qs"
      "d = c\<lparr>cfg_scopes := (cfg_scopes c)\<lparr>depot_scope := qs\<rparr>\<rparr>" "depot_scope (cfg_scopes c) \<noteq> []"
      "p4_port (perforce c) \<noteq> []" "p4_user (perforce c) \<noteq> []"
    using assms by (auto simp: validate_perforce_def bind_result_Inr_iff split: if_splits)
  have "qs \<noteq> []" using normalize_scopes_InrD [OF q(1)] q(3) by auto
  with normalize_scopes_InrD [OF q(1)] q show ?thesis by (simp add: scopes_ready_def)
qed (use assms in \<open>simp add: validate_perforce_def scopes_ready_def\<close>)

lemma Validate_InrD:
  assumes "Validate pu c = Inr d"
  shows "validate_endpoint pu c = None \<and> MatchString tokenPattern (token c) \<and>
    1 \<le> max_concurrent c \<and> max_concurrent c \<le> 32 \<and>
    validate_perforce c = Inr d \<and> validate_teamcity pu d = None"
  using assms by (auto simp: Validate_def bind_result_Inr_iff split: option.splits if_splits)

lemma Load_InrD:
  assumes "Load w path = Inr d"
  obtains raw c0 c where "checkSecretFileMode (env_fs w) path = None"
    "read_file (env_fs w) path = Some raw" "env_yaml w raw = Some c0"
    "resolveSecretFiles (env_fs w) (applyDefaults (env_logs w) (c0\<lparr>config_path := path\<rparr>)) = Inr c"
    "Validate (env_url w) c = Inr d"
  using assms by (auto simp: Load_def bind_result_Inr_iff split: option.splits)

subsection \<open>The configuration owns the scopes\<close>

definition perforce_ready :: "config \<Rightarrow> bool" where
  "perforce_ready c \<longleftrightarrow> scopes_ready c \<and> p4_enabled (perforce c)"

interpretation loaded: directory_scoped perforce_ready cfg_scopes
  by unfold_locales (auto simp: perforce_ready_def scopes_ready_def directory_scopes_def)

end
