(* ===== verification/Config_Properties.thy ===== *)
theory Config_Properties
  imports Config Scope_Properties
begin

text \<open>
  What a configuration that loads guarantees: transport, token, scopes, and where
  its secrets came from; and what its log form reveals.
\<close>

text \<open>C9. A configuration that loads is safe to run: its file had no group or other
  permission bit; the endpoint is a wss URL with a host and without a question mark,
  user info or fragment; the token has the connector-token shape; the concurrency is
  between 1 and 32; with perforce enabled there is a scope, and every scope is a depot
  directory, slash-terminated and free of wildcards; with teamcity enabled there is a
  token and an http(s) URL.\<close>

theorem loaded_config_safe:
  assumes "Load w path = Inr c"
  shows "(\<exists>st. stat (env_fs w) path = Some st \<and> \<not> is_dir st \<and> perm st AND 0x3F = 0) \<and>
    (\<exists>u. env_url w (endpoint c) = Some u \<and> url_scheme u = ''wss'' \<and> url_host u \<noteq> [] \<and>
       url_raw_query u = [] \<and> \<not> url_has_user u \<and> url_fragment u = []) \<and>
    \<not> Contains (endpoint c) ''?'' \<and>
    MatchString tokenPattern (token c) \<and>
    1 \<le> max_concurrent c \<and> max_concurrent c \<le> 32 \<and>
    (p4_enabled (perforce c) \<longrightarrow> depot_scope (cfg_scopes c) \<noteq> [] \<and>
      (\<forall>q \<in> set (depot_scope (cfg_scopes c)). HasPrefix q ''//'' \<and> HasSuffix q ''/'' \<and> wildcard_free q)) \<and>
    (tc_enabled (teamcity c) \<longrightarrow> tc_token (teamcity c) \<noteq> [] \<and>
      (\<exists>u. env_url w (tc_url (teamcity c)) = Some u \<and> url_host u \<noteq> [] \<and> url_scheme u \<in> {''http'', ''https''}))"
proof -
  from assms obtain raw c0 c1 where l: "checkSecretFileMode (env_fs w) path = None"
      "Validate (env_url w) c1 = Inr c" by (rule Load_InrD)
  note v = Validate_InrD [OF l(2)]
  then have vp: "validate_perforce c1 = Inr c" by blast
  note p = validate_perforce_InrD [OF vp]
  define ps where "ps = depot_scope (cfg_scopes c)"
  have c: "c = c1\<lparr>cfg_scopes := (cfg_scopes c1)\<lparr>depot_scope := ps\<rparr>\<rparr>"
    unfolding ps_def using p by blast
  then have same: "endpoint c = endpoint c1" "token c = token c1" "max_concurrent c = max_concurrent c1"
    by simp_all
  have "\<exists>u. env_url w (endpoint c1) = Some u \<and> url_scheme u = ''wss'' \<and> url_host u \<noteq> [] \<and>
       url_raw_query u = [] \<and> \<not> url_has_user u \<and> url_fragment u = []"
    "\<not> Contains (endpoint c1) ''?''"
    using v by (auto simp: validate_endpoint_def split: if_splits option.splits)
  moreover have "tc_enabled (teamcity c) \<longrightarrow> tc_token (teamcity c) \<noteq> [] \<and>
      (\<exists>u. env_url w (tc_url (teamcity c)) = Some u \<and> url_host u \<noteq> [] \<and> url_scheme u \<in> {''http'', ''https''})"
    using v by (auto simp: validate_teamcity_def split: if_splits option.splits)
  ultimately show ?thesis
    using l(1) v p unfolding checkSecretFileMode_None_iff scopes_ready_def same by blast
qed

text \<open>C21. Secrets come from the studio's disk only: each of the three credentials of a
  configuration that loads is either the value written in the YAML file, or the trimmed
  contents of the file that YAML names, which had no group or other permission bit;
  never both.\<close>

theorem loaded_secret_custody:
  assumes "Load w path = Inr c"
  shows "\<exists>raw c0. read_file (env_fs w) path = Some raw \<and> env_yaml w raw = Some c0 \<and>
    (\<forall>(secret, inline, file) \<in> {(token c, token c0, token_file c0),
        (p4_ticket (perforce c), p4_ticket (perforce c0), p4_ticket_file (perforce c0)),
        (tc_token (teamcity c), tc_token (teamcity c0), tc_token_file (teamcity c0))}.
      (file = [] \<and> secret = inline) \<or>
      (inline = [] \<and> checkSecretFileMode (env_fs w) file = None \<and>
       (\<exists>b. read_file (env_fs w) file = Some b \<and> secret = TrimSpace b)))"
proof -
  from assms obtain raw c0 c1 where l: "read_file (env_fs w) path = Some raw" "env_yaml w raw = Some c0"
      "resolveSecretFiles (env_fs w) (applyDefaults (env_logs w) (c0\<lparr>config_path := path\<rparr>)) = Inr c1"
      "Validate (env_url w) c1 = Inr c" by (rule Load_InrD)
  have vp: "validate_perforce c1 = Inr c" using Validate_InrD [OF l(4)] by blast
  define ps where "ps = depot_scope (cfg_scopes c)"
  have c: "c = c1\<lparr>cfg_scopes := (cfg_scopes c1)\<lparr>depot_scope := ps\<rparr>\<rparr>"
    unfolding ps_def using validate_perforce_InrD [OF vp] by blast
  show ?thesis
    using l(3)
    by (intro exI [of _ raw] exI [of _ c0])
      (auto simp: l(1,2) c resolveSecretFiles_def applyDefaults_def bind_result_Inr_iff
        dest!: resolve_secret_InrD)
qed

text \<open>The integration id is the middle segment of a well-formed token: the token is
  \<open>bsc_\<close>, the id, an underscore and a secret of 32 to 128 characters, in exactly one way.\<close>

theorem integration_id_middle:
  assumes "MatchString tokenPattern (token c)"
  shows "\<exists>s. token c = ''bsc_'' @ IntegrationID c @ CHR ''_'' # s \<and>
    IntegrationID c \<noteq> [] \<and> length (IntegrationID c) \<le> 63 \<and> CHR ''_'' \<notin> set (IntegrationID c) \<and>
    32 \<le> length s \<and> length s \<le> 128 \<and> CHR ''_'' \<notin> set s"
proof -
  from tokenPattern_iff [OF assms] obtain i s where i: "token c = ''bsc_'' @ i @ CHR ''_'' # s"
      "CHR ''_'' \<notin> set i" "CHR ''_'' \<notin> set s" "i \<noteq> []" "length i \<le> 63" "32 \<le> length s" "length s \<le> 128"
    by blast
  with IntegrationID_middle [OF i(1-3)] show ?thesis by blast
qed

text \<open>The log form of a configuration hides its credentials: two configurations
  that differ only in the secret half of the token, the perforce ticket, the teamcity
  token, or the files these are read from, render the same.\<close>

lemma redacted_hides_secrets:
  assumes "CHR ''_'' \<notin> set i" "CHR ''_'' \<notin> set s" "CHR ''_'' \<notin> set s'"
  shows "Redacted (c\<lparr>token := ''bsc_'' @ i @ CHR ''_'' # s\<rparr>) =
    Redacted (c\<lparr>token := ''bsc_'' @ i @ CHR ''_'' # s', token_file := tf,
      perforce := (perforce c)\<lparr>p4_ticket := k, p4_ticket_file := kf\<rparr>,
      teamcity := (teamcity c)\<lparr>tc_token := u, tc_token_file := uf\<rparr>\<rparr>)"
proof -
  have "IntegrationID (d\<lparr>token := ''bsc_'' @ i @ CHR ''_'' # r\<rparr>) = i" if "CHR ''_'' \<notin> set r" for d r
    by (rule IntegrationID_middle [OF _ assms(1) that]) simp
  moreover have "IntegrationID (d\<lparr>perforce := x, teamcity := y, token_file := z\<rparr>) = IntegrationID d" for d x y z
    by (simp add: IntegrationID_def)
  ultimately show ?thesis using assms(2,3) by (simp add: Redacted_def IntegrationID_def)
qed

text \<open>Validation is a normalisation: validating a configuration that validation
  produced changes nothing.\<close>

theorem validate_idempotent:
  assumes "Validate pu c = Inr d"
  shows "Validate pu d = Inr d"
proof -
  have again: "normalize_scopes qs = Inr qs"
    if "\<forall>q \<in> set qs. HasPrefix q ''//'' \<and> HasSuffix q ''/'' \<and> wildcard_free q" for qs
    using that by (induction qs) (auto simp: wildcard_free_def ContainsAny_iff Let_def)
  note v = Validate_InrD [OF assms]
  then have vp: "validate_perforce c = Inr d" by blast
  define ps where "ps = depot_scope (cfg_scopes d)"
  have d: "d = c\<lparr>cfg_scopes := (cfg_scopes c)\<lparr>depot_scope := ps\<rparr>\<rparr>"
    unfolding ps_def using validate_perforce_InrD [OF vp] by blast
  have ep: "validate_endpoint pu d = validate_endpoint pu c"
  proof -
    have "endpoint d = endpoint c" by (simp add: d)
    then show ?thesis by (simp only: validate_endpoint_def)
  qed
  have "validate_perforce d = Inr d"
  proof (cases "p4_enabled (perforce d)")
    case True
    with validate_perforce_InrD [OF vp] have sr: "depot_scope (cfg_scopes d) \<noteq> []"
        "\<forall>q \<in> set (depot_scope (cfg_scopes d)). HasPrefix q ''//'' \<and> HasSuffix q ''/'' \<and> wildcard_free q"
        "p4_port (perforce d) \<noteq> []" "p4_user (perforce d) \<noteq> []"
      using True by (auto simp: scopes_ready_def d)
    then show ?thesis using True again [OF sr(2)] by (simp add: validate_perforce_def)
  qed (simp add: validate_perforce_def)
  moreover have "token d = token c" "max_concurrent d = max_concurrent c" by (simp_all add: d)
  moreover have "token c \<noteq> []" using v tokenPattern_iff by fastforce
  ultimately show ?thesis using v ep by (simp add: Validate_def)
qed

text \<open>C8. End to end, what a configuration that loaded confines an accepted \<open>p4.changes\<close> path
  to: there is one configured scope such that every depot file the path matches begins
  with the scope's root, that is the scope without its final slash; and unless the path
  is that root alone, or the root with a wildcard glued to it, the path is written
  below the scope and every file it matches lies under the scope's directory. Perforce's
  matching is any function that takes the text before the first special character
  literally. What the two exceptional paths match beyond the directory is C19.\<close>

theorem loaded_scope_containment:
  assumes "Load w path = Inr c"
    and "Resolve ''p4.changes'' raw (cfg_scopes c) (tool_enabled c) = Inr (v, m)"
    and "m ''path'' = Some (VString s)" "literal_matching matches"
  shows "\<exists>q \<in> set (depot_scope (cfg_scopes c)).
    (\<forall>f. matches s f \<longrightarrow> HasPrefix f (TrimSuffix q ''/'')) \<and>
    ((HasPrefix s q \<and> (\<forall>f. matches s f \<longrightarrow> HasPrefix f q)) \<or>
     s = TrimSuffix q ''/'' \<or>
     (\<exists>r. s = TrimSuffix q ''/'' @ r \<and> (HasPrefix r ''*'' \<or> HasPrefix r ''...'')))"
proof -
  from assms(1) obtain c1 where "Validate (env_url w) c1 = Inr c" by (rule Load_InrD)
  then have "scopes_ready c" using Validate_InrD validate_perforce_InrD by blast
  moreover have "p4_enabled (perforce c)"
  proof -
    have "v = changes_verb" using Resolve_named [OF assms(2) Lookup_live(2)] .
    moreover from assms(2) have "verb_tool v = [] \<or> tool_enabled c (verb_tool v)"
      by (rule Resolve_InrD) simp
    ultimately have "tool_enabled c ''perforce''" by (simp add: changes_verb_def)
    then show ?thesis by (simp add: tool_enabled_def Tools_def)
  qed
  ultimately have "perforce_ready c" by (simp add: perforce_ready_def)
  from loaded.containment [OF this assms(2-4)] show ?thesis unfolding path_within_def .
qed

subsection \<open>A configuration that loads\<close>

definition sample_token :: string where
  "sample_token = ''bsc_acme_'' @ replicate 32 CHR ''A''"

definition sample_config :: config where
  "sample_config =
     \<lparr>endpoint = ''wss://c.example/ws'', endpoint_ca_file = [], token = sample_token, token_file = [],
      connector_id = ''studio'', log_dir = ''/var/log/b'', max_concurrent = 4,
      cfg_scopes = game_scope, content_verbs = False,
      perforce = \<lparr>p4_enabled = True, p4_binary = ''p4'', p4_port = ''ssl:p4:1666'', p4_user = ''u'',
        p4_ticket = ''T'', p4_ticket_file = [], p4_timeout = 20 * 10 ^ 9\<rparr>,
      teamcity = \<lparr>tc_enabled = False, tc_url = [], tc_token = [], tc_token_file = [], tc_ca_file = [],
        tc_insecure = False, tc_timeout = 10 * 10 ^ 9\<rparr>,
      config_path = ''c.yml''\<rparr>"

definition sample_env :: load_env where
  "sample_env =
     \<lparr>env_fs = \<lparr>stat = (\<lambda>_. Some \<lparr>is_dir = False, perm = 0x180\<rparr>), read_file = (\<lambda>_. Some [])\<rparr>,
      env_yaml = (\<lambda>_. Some sample_config),
      env_url = (\<lambda>_. Some \<lparr>url_scheme = ''wss'', url_host = ''c.example'', url_path = ''/ws'', url_escaped_path = ''/ws'',
        url_raw_query = [], url_has_user = False, url_fragment = []\<rparr>),
      env_logs = (\<lambda>p. p)\<rparr>"

lemma sample_token_ok: "MatchString tokenPattern sample_token" by code_simp

lemma sample_valid: "Validate (env_url sample_env) sample_config = Inr sample_config"
proof -
  have "normalize_scopes [''//depot/game/''] = Inr [''//depot/game/'']" by code_simp
  moreover have "\<not> Contains ''wss://c.example/ws'' ''?''" by code_simp
  ultimately show ?thesis
    using sample_token_ok
    by (simp add: Validate_def validate_endpoint_def validate_perforce_def validate_teamcity_def
        sample_env_def sample_config_def game_scope_def sample_token_def)
qed

lemma sample_loads: "Load sample_env ''c.yml'' = Inr sample_config"
proof -
  have "resolveSecretFiles (env_fs sample_env) (applyDefaults (env_logs sample_env)
      (sample_config\<lparr>config_path := ''c.yml''\<rparr>)) = Inr sample_config"
    by (simp add: resolveSecretFiles_def resolve_secret_def applyDefaults_def sample_config_def)
  with sample_valid show ?thesis
    by (simp add: Load_def checkSecretFileMode_def sample_env_def)
qed

theorem loaded_config_safe_witness: "MatchString tokenPattern (token sample_config)"
  using loaded_config_safe [OF sample_loads] by blast

theorem loaded_secret_custody_witness:
  "\<exists>c0. env_yaml sample_env [] = Some c0 \<and>
     (p4_ticket (perforce sample_config) = p4_ticket (perforce c0) \<or> p4_ticket (perforce c0) = [])"
  using loaded_secret_custody [OF sample_loads] by (auto simp: sample_env_def)

theorem integration_id_middle_witness: "IntegrationID sample_config \<noteq> []"
proof -
  have "MatchString tokenPattern (token sample_config)"
    using sample_token_ok by (simp add: sample_config_def)
  from integration_id_middle [OF this] show ?thesis by blast
qed

theorem validate_idempotent_witness: "Validate (env_url sample_env) sample_config = Inr sample_config"
  using validate_idempotent [OF sample_valid] .

theorem loaded_scope_containment_witness:
  "wildcard_match ''//depot/game/...'' ''//depot/game/a.uasset'' \<and>
   {f. wildcard_match ''//depot/game/...'' f} \<subseteq> {f. HasPrefix f ''//depot/game/''}"
proof -
  let ?p = "''//depot/game/...''"
  have "cfg_scopes sample_config = game_scope" by (simp add: sample_config_def)
  moreover have "tool_enabled sample_config ''perforce''"
    by (simp add: tool_enabled_def Tools_def sample_config_def)
  ultimately have r: "Resolve ''p4.changes'' (json_object [(''path'', quote_json ?p)])
      (cfg_scopes sample_config) (tool_enabled sample_config)
     = Inr (changes_verb, [''path'' \<mapsto> VString ?p])"
    using path_ok_game by (intro changes_accepts) (simp_all add: valid_utf8_ascii)
  have m: "wildcard_match ?p ''//depot/game/a.uasset''" by code_simp
  have trim: "TrimSuffix ''//depot/game/'' ''/'' = ''//depot/game''" by code_simp
  from loaded_scope_containment [OF sample_loads r _ wildcard_match_literal, of ?p]
  have "HasPrefix ?p ''//depot/game/'' \<and> (\<forall>f. wildcard_match ?p f \<longrightarrow> HasPrefix f ''//depot/game/'')"
    by (simp add: sample_config_def game_scope_def trim)
  with m show ?thesis by blast
qed

end
