(* ===== verification/Go_Json_Nested.thy ===== *)
theory Go_Json_Nested
  imports Go_Json_Roundtrip
begin

text \<open>
  The round trip for nested values: objects and arrays of encoded values are
  encoded values again, one level deeper. \<open>encodes_in D t v\<close> says that the text
  \<open>t\<close> is read as \<open>v\<close> wherever at least \<open>D\<close> levels of nesting are left.
\<close>

definition encodes_in :: "nat \<Rightarrow> string \<Rightarrow> json \<Rightarrow> bool" where
  "encodes_in D t v \<longleftrightarrow>
     t \<noteq> [] \<and> \<not> is_space (hd t) \<and> hd t \<notin> {CHR '']'', CHR ''}''} \<and>
     (\<forall>f d q. 2 * length t \<le> f \<longrightarrow> D \<le> d \<longrightarrow> delimited q \<longrightarrow> jvalue f d (t @ q) = Some (v, q))"

lemma encodes_inD:
  "encodes_in D t v \<Longrightarrow> 2 * length t \<le> f \<Longrightarrow> D \<le> d \<Longrightarrow> delimited q \<Longrightarrow> jvalue f d (t @ q) = Some (v, q)"
  by (simp add: encodes_in_def)

lemma encodes_in_mono: "encodes_in D t v \<Longrightarrow> D \<le> D' \<Longrightarrow> encodes_in D' t v"
  unfolding encodes_in_def by (meson order_trans)

lemma encodes_in_scalar:
  assumes "encodes t v" "hd t \<notin> {CHR '']'', CHR ''}''}"
  shows "encodes_in D t v"
proof -
  have "jvalue f d (t @ q) = Some (v, q)" if "2 * length t \<le> f" "delimited q" for f d q
  proof -
    have "t \<noteq> []" using assms(1) by (simp add: encodes_def)
    with that(1) obtain g where "f = Suc g" by (cases f) auto
    then show ?thesis using encodesD [OF assms(1) that(2)] by simp
  qed
  with assms show ?thesis by (simp add: encodes_in_def encodes_def)
qed

lemma encodes_in_string: "valid_utf8 s \<Longrightarrow> encodes_in D (quote_json s) (JStr s)"
  by (rule encodes_in_scalar [OF encodes_string]) (simp_all add: quote_json_def)

lemma encodes_in_int: "encodes_in D (Itoa i) (JNum (Itoa i))"
proof (rule encodes_in_scalar [OF encodes_int])
  have "Itoa i \<noteq> []" using encodes_int [of i] by (simp add: encodes_def)
  then have "hd (Itoa i) \<in> set (Itoa i)" by simp
  from Itoa_chars [OF this] show "hd (Itoa i) \<notin> {CHR '']'', CHR ''}''}" by (auto simp: is_digit_def)
qed

lemma encodes_in_lits:
  "encodes_in D ''true'' (JBool True)" "encodes_in D ''false'' (JBool False)" "encodes_in D ''null'' JNull"
  by (rule encodes_in_scalar; simp add: encodes_bool encodes_null)+

lemma nat_two_cases:
  obtains (zero) "n = 0" | (one) "n = Suc 0" | (more) m where "n = Suc (Suc m)"
  by (cases n; cases "n - 1") auto

subsection \<open>Objects\<close>

definition members_in :: "nat \<Rightarrow> (string \<times> string \<times> json) list \<Rightarrow> bool" where
  "members_in D ms \<longleftrightarrow> list_all (\<lambda>(k, t, v). valid_utf8 k \<and> encodes_in D t v) ms"

lemma members_in_simps [simp]:
  "members_in D []"
  "members_in D ((k, t, v) # ms) \<longleftrightarrow> valid_utf8 k \<and> encodes_in D t v \<and> members_in D ms"
  "members_in D (ms @ ns) \<longleftrightarrow> members_in D ms \<and> members_in D ns"
  by (simp_all add: members_in_def)

lemma texts_simps [simp]:
  "texts [] = []" "texts ((k, t, v) # ms) = (k, t) # texts ms" "texts (ms @ ns) = texts ms @ texts ns"
  by (simp_all add: texts_def)

lemma skip_ws_encodes_in: "encodes_in D t v \<Longrightarrow> skip_ws (t @ q) = t @ q"
  by (cases t) (simp_all add: encodes_in_def skip_ws_Cons)

lemma skip_ws_delimited: "delimited q \<Longrightarrow> skip_ws q = q"
  by (cases q) (auto simp: skip_ws_def delimited_def is_space_def)

lemma jmembers_step:
  assumes "valid_utf8 k" "encodes_in D t v" "D \<le> d" "2 * length t \<le> f" "delimited q"
  shows "jmembers (Suc f) d (quote_json k @ CHR '':'' # t @ q) =
    (if HasPrefix q '','' then map_option (apfst ((#) (k, t, v))) (jmembers f d (skip_ws (drop 1 q)))
     else if HasPrefix q ''}'' then Some ([(k, t, v)], drop 1 q) else None)"
proof -
  have s: "skip_ws (CHR '':'' # u) = CHR '':'' # u" for u by (simp add: skip_ws_def is_space_def)
  have "jstring (quote_body k @ CHR 0x22 # CHR '':'' # t @ q) = Some (k, CHR '':'' # t @ q)"
    using jstring_quote_body [OF assms(1)] .
  then show ?thesis
    unfolding jmembers.simps(2)
    by (simp add: quote_json_def s skip_ws_delimited [OF assms(5)] skip_ws_encodes_in [OF assms(2)]
        encodes_inD [OF assms(2,4,3,5)] Let_def del: jmembers.simps jvalue.simps)
qed

lemma join_members_Cons:
  "ms \<noteq> [] \<Longrightarrow> join_members ((k, t) # ms) = quote_json k @ CHR '':'' # t @ CHR '','' # join_members ms"
  by (cases ms) auto

lemma jmembers_nested:
  assumes "members_in D ms" "ms \<noteq> []" "D \<le> d" "2 * length (join_members (texts ms)) \<le> f"
  shows "jmembers (Suc f) d (join_members (texts ms) @ CHR ''}'' # q) = Some (ms, q)"
  using assms
proof (induction ms arbitrary: f)
  case (Cons m ms)
  obtain k t v where m: "m = (k, t, v)" by (cases m)
  have ok: "valid_utf8 k" "encodes_in D t v" "members_in D ms" using Cons.prems(1) by (simp_all add: m)
  show ?case
  proof (cases "ms = []")
    case True
    then show ?thesis
      using jmembers_step [OF ok(1,2) Cons.prems(3), of f "CHR ''}'' # q"] Cons.prems(4)
      by (simp add: m delimited_def del: jmembers.simps)
  next
    case False
    then have ne: "texts ms \<noteq> []" by (simp add: texts_def)
    then obtain g where g: "f = Suc g" "2 * length t \<le> f" "2 * length (join_members (texts ms)) \<le> g"
      using Cons.prems(4) by (cases f) (auto simp: m join_members_Cons quote_json_def)
    have "jmembers f d (join_members (texts ms) @ CHR ''}'' # q) = Some (ms, q)"
      using Cons.IH [OF ok(3) False Cons.prems(3) g(3)] g(1) by simp
    then show ?thesis
      using jmembers_step [OF ok(1,2) Cons.prems(3) g(2), of "CHR '','' # join_members (texts ms) @ CHR ''}'' # q"]
      by (simp add: m join_members_Cons [OF ne] delimited_def skip_ws_join [OF ne] del: jmembers.simps)
  qed
qed simp

theorem encodes_in_object:
  assumes "members_in D ms"
  shows "encodes_in (Suc D) (json_object (texts ms)) (JObj ms)"
proof -
  have "jvalue f d (json_object (texts ms) @ q) = Some (JObj ms, q)"
    if len: "2 * length (json_object (texts ms)) \<le> f" and more: "Suc D \<le> d" "delimited q" for f d q
  proof (cases "ms = []")
    case True
    with len more show ?thesis by (cases f) (auto simp: json_object_def skip_ws_def is_space_def)
  next
    case False
    then have ne: "texts ms \<noteq> []" by (simp add: texts_def)
    have "hd (join_members (texts ms) @ CHR ''}'' # q) = CHR 0x22"
      using ne by (cases "texts ms" rule: join_members.cases) (auto simp: quote_json_def)
    then have nb: "\<not> HasPrefix (join_members (texts ms) @ CHR ''}'' # q) ''}''"
      by (cases "join_members (texts ms) @ CHR ''}'' # q") auto
    obtain g where g: "f = Suc (Suc g)" "2 * length (join_members (texts ms)) \<le> g"
      using len by (cases f rule: nat_two_cases) (auto simp: json_object_def)
    have "jmembers (Suc g) (d - 1) (join_members (texts ms) @ CHR ''}'' # q) = Some (ms, q)"
      using jmembers_nested [OF assms False _ g(2)] that(2) by simp
    then show ?thesis
      using more(1) nb by (simp add: g(1) json_object_def skip_ws_join [OF ne] del: jmembers.simps)
  qed
  then show ?thesis by (simp add: encodes_in_def json_object_def is_space_def)
qed

subsection \<open>Arrays\<close>

fun join_values :: "string list \<Rightarrow> string" where
  "join_values [] = []"
| "join_values [v] = v"
| "join_values (v # vs) = v @ CHR '','' # join_values vs"

definition json_array :: "string list \<Rightarrow> string" where
  "json_array vs = CHR ''['' # join_values vs @ '']''"

definition elems_in :: "nat \<Rightarrow> (string \<times> json) list \<Rightarrow> bool" where
  "elems_in D xs \<longleftrightarrow> list_all (\<lambda>(t, v). encodes_in D t v) xs"

lemma join_values_Cons: "vs \<noteq> [] \<Longrightarrow> join_values (v # vs) = v @ CHR '','' # join_values vs"
  by (cases vs) auto

lemma skip_ws_join_values:
  "elems_in D xs \<Longrightarrow> xs \<noteq> [] \<Longrightarrow> skip_ws (join_values (map fst xs) @ q) = join_values (map fst xs) @ q"
  by (cases xs rule: list.exhaust; cases "tl xs")
    (auto simp: elems_in_def skip_ws_encodes_in)

lemma jelems_nested:
  assumes "elems_in D xs" "xs \<noteq> []" "D \<le> d" "2 * length (join_values (map fst xs)) \<le> f"
  shows "jelems (Suc f) d (join_values (map fst xs) @ CHR '']'' # q) = Some (map snd xs, q)"
  using assms
proof (induction xs arbitrary: f)
  case (Cons x xs)
  obtain t v where x: "x = (t, v)" by (cases x)
  have ok: "encodes_in D t v" "elems_in D xs" using Cons.prems(1) by (simp_all add: x elems_in_def)
  show ?case
  proof (cases "xs = []")
    case True
    then show ?thesis
      using encodes_inD [OF ok(1) _ Cons.prems(3), of f "CHR '']'' # q"] Cons.prems(4)
      by (simp add: x delimited_def skip_ws_Cons is_space_def del: jvalue.simps)
  next
    case False
    then have ne: "map fst xs \<noteq> []" by simp
    have "t \<noteq> []" using ok(1) by (simp add: encodes_in_def)
    then obtain g where g: "f = Suc g" "2 * length t \<le> f" "2 * length (join_values (map fst xs)) \<le> g"
      using Cons.prems(4) by (cases f) (auto simp: x join_values_Cons [OF ne])
    have "jelems f d (join_values (map fst xs) @ CHR '']'' # q) = Some (map snd xs, q)"
      using Cons.IH [OF ok(2) False Cons.prems(3) g(3)] g(1) by simp
    then show ?thesis
      using encodes_inD [OF ok(1) g(2) Cons.prems(3), of "CHR '','' # join_values (map fst xs) @ CHR '']'' # q"]
        skip_ws_join_values [OF ok(2) False]
      by (simp add: x join_values_Cons [OF ne] delimited_def skip_ws_Cons is_space_def del: jvalue.simps)
  qed
qed simp

theorem encodes_in_array:
  assumes "elems_in D xs"
  shows "encodes_in (Suc D) (json_array (map fst xs)) (JArr (map snd xs))"
proof -
  have "jvalue f d (json_array (map fst xs) @ q) = Some (JArr (map snd xs), q)"
    if len: "2 * length (json_array (map fst xs)) \<le> f" and more: "Suc D \<le> d" "delimited q" for f d q
  proof (cases "xs = []")
    case True
    with len more show ?thesis by (cases f) (auto simp: json_array_def skip_ws_def is_space_def)
  next
    case False
    let ?j = "join_values (map fst xs) @ CHR '']'' # q"
    obtain t v where t: "hd xs = (t, v)" "encodes_in D t v"
      using assms False by (cases xs) (auto simp: elems_in_def)
    then have "t \<noteq> []" "hd t \<noteq> CHR '']''" by (simp_all add: encodes_in_def)
    moreover have "hd ?j = hd t" using False t(1) \<open>t \<noteq> []\<close>
      by (cases xs; cases "tl xs") auto
    ultimately have nb: "\<not> HasPrefix ?j '']''" by (cases ?j) auto
    obtain g where g: "f = Suc (Suc g)" "2 * length (join_values (map fst xs)) \<le> g"
      using len by (cases f rule: nat_two_cases) (auto simp: json_array_def)
    have "jelems (Suc g) (d - 1) ?j = Some (map snd xs, q)"
      using jelems_nested [OF assms False _ g(2)] that(2) by simp
    then show ?thesis
      using more(1) nb by (simp add: g(1) json_array_def skip_ws_join_values [OF assms False] del: jelems.simps)
  qed
  then show ?thesis by (simp add: encodes_in_def json_array_def is_space_def)
qed

subsection \<open>At the top level\<close>

lemma decode_encodes_in:
  assumes "encodes_in D t v" "D \<le> max_nesting" "delimited q"
  shows "decode_next (t @ q) = Some (v, q)"
  unfolding decode_next_def Let_def
  using encodes_inD [OF assms(1) _ assms(2,3)] skip_ws_encodes_in [OF assms(1)]
  by (simp del: jvalue.simps)

lemma json_parse_in: "encodes_in D t v \<Longrightarrow> D \<le> max_nesting \<Longrightarrow> json_parse t = Some v"
  using decode_encodes_in [of D t v "[]"] by (simp add: json_parse_def skip_ws_def delimited_def)

end
