(* ===== verification/Protocol.thy ===== *)
theory Protocol
  imports Go_Json_Nested
begin

text \<open>
  \<open>internal/protocol/protocol.go\<close>: the wire frames, their JSON texts and their
  decoding. A frame's \<open>body\<close> is kept as the JSON text of the value the executor
  returned, \<^const>\<open>None\<close> for Go's \<open>nil\<close>; strings are byte strings.
\<close>

subsection \<open>Frames\<close>

definition Version :: string where "Version = ''0''"

definition TypeHello :: string where "TypeHello = ''hello''"
definition TypeWelcome :: string where "TypeWelcome = ''welcome''"
definition TypeReject :: string where "TypeReject = ''reject''"
definition TypeCommand :: string where "TypeCommand = ''command''"
definition TypeResult :: string where "TypeResult = ''result''"
definition TypeHeartbeat :: string where "TypeHeartbeat = ''heartbeat''"

definition StatusOK :: string where "StatusOK = ''ok''"
definition StatusError :: string where "StatusError = ''error''"
definition StatusDenied :: string where "StatusDenied = ''denied''"
definition StatusTimeout :: string where "StatusTimeout = ''timeout''"

lemmas token_defs = TypeHello_def TypeWelcome_def TypeReject_def TypeCommand_def TypeResult_def
  TypeHeartbeat_def StatusOK_def StatusError_def StatusDenied_def StatusTimeout_def

record hello =
  hello_type :: string
  hello_connector :: string
  hello_integration :: string
  hello_version :: string
  hello_protocol :: string
  hello_capabilities :: "string list"
  hello_tool_versions :: "(string \<times> string) list"

record welcome_frame =
  welcome_session :: string
  welcome_server_time :: string
  welcome_min_version :: string
  welcome_heartbeat :: int

record reject_frame =
  reject_reason :: string

record command =
  cmd_type :: string
  cmd_id :: string
  cmd_verb :: string
  cmd_args :: string
  cmd_deadline_ms :: int
  cmd_max_bytes :: int

record result_frame =
  res_type :: string
  res_id :: string
  res_status :: string
  res_reason :: string
  res_body :: "string option"
  res_truncated :: bool
  res_bytes :: int

record heartbeat_frame =
  hb_type :: string
  hb_ts :: string
  hb_queue_depth :: int

subsection \<open>Decoding\<close>

text \<open>A field of a struct, decoded by \<open>f\<close> over its zero value.\<close>

definition field_value :: "(json \<Rightarrow> 'a assign) \<Rightarrow> 'a \<Rightarrow> string list \<Rightarrow> string \<Rightarrow> (string \<times> string \<times> json) list \<Rightarrow> 'a" where
  "field_value f zero fs k ms = assign_all f zero (values_for fs k ms)"

definition field_bad :: "(json \<Rightarrow> 'a assign) \<Rightarrow> string list \<Rightarrow> string \<Rightarrow> (string \<times> string \<times> json) list \<Rightarrow> bool" where
  "field_bad f fs k ms \<longleftrightarrow> any_type_error f (values_for fs k ms)"

text \<open>\<open>json.Unmarshal\<close> into a struct: the members, or an error.\<close>

definition frame_members :: "string \<Rightarrow> (string \<times> string \<times> json) list option" where
  "frame_members raw = Option.bind (json_parse raw) struct_members"

datatype frame_error = MalformedFrame | NoType

definition DecodeEnvelope :: "string \<Rightarrow> frame_error + string" where
  "DecodeEnvelope raw =
     (case frame_members raw of
        None \<Rightarrow> Inl MalformedFrame
      | Some ms \<Rightarrow>
          if field_bad as_string [''type''] ''type'' ms then Inl MalformedFrame
          else (let t = field_value as_string [] [''type''] ''type'' ms
                in if t = [] then Inl NoType else Inr t))"

definition command_fields :: "string list" where
  "command_fields = [''type'', ''id'', ''verb'', ''args'', ''deadline_ms'', ''max_bytes'']"

definition decode_command :: "string \<Rightarrow> command option" where
  "decode_command raw =
     (case frame_members raw of
        None \<Rightarrow> None
      | Some ms \<Rightarrow>
          let fs = command_fields
          in if field_bad as_string fs ''type'' ms \<or> field_bad as_string fs ''id'' ms \<or>
                field_bad as_string fs ''verb'' ms \<or> field_bad as_int fs ''deadline_ms'' ms \<or>
                field_bad as_int fs ''max_bytes'' ms
             then None
             else Some
               \<lparr>cmd_type = field_value as_string [] fs ''type'' ms,
                cmd_id = field_value as_string [] fs ''id'' ms,
                cmd_verb = field_value as_string [] fs ''verb'' ms,
                cmd_args = raw_for fs ''args'' ms,
                cmd_deadline_ms = field_value as_int 0 fs ''deadline_ms'' ms,
                cmd_max_bytes = field_value as_int 0 fs ''max_bytes'' ms\<rparr>)"

definition welcome_fields :: "string list" where
  "welcome_fields = [''type'', ''session_id'', ''server_time'', ''min_supported_version'', ''heartbeat_interval'']"

definition decode_welcome :: "string \<Rightarrow> welcome_frame option" where
  "decode_welcome raw =
     (case frame_members raw of
        None \<Rightarrow> None
      | Some ms \<Rightarrow>
          let fs = welcome_fields
          in if field_bad as_string fs ''type'' ms \<or> field_bad as_string fs ''session_id'' ms \<or>
                field_bad as_string fs ''server_time'' ms \<or>
                field_bad as_string fs ''min_supported_version'' ms \<or>
                field_bad as_int fs ''heartbeat_interval'' ms
             then None
             else Some
               \<lparr>welcome_session = field_value as_string [] fs ''session_id'' ms,
                welcome_server_time = field_value as_string [] fs ''server_time'' ms,
                welcome_min_version = field_value as_string [] fs ''min_supported_version'' ms,
                welcome_heartbeat = field_value as_int 0 fs ''heartbeat_interval'' ms\<rparr>)"

text \<open>
  The session ignores the error of this one, so what was decoded before and after a
  mistyped field stands.
\<close>

definition decode_reject :: "string \<Rightarrow> reject_frame" where
  "decode_reject raw =
     \<lparr>reject_reason =
        (case frame_members raw of
           None \<Rightarrow> []
         | Some ms \<Rightarrow> field_value as_string [] [''type'', ''reason''] ''reason'' ms)\<rparr>"

subsection \<open>Building\<close>

definition NewHello :: "string \<Rightarrow> string \<Rightarrow> string \<Rightarrow> string list \<Rightarrow> (string \<times> string) list \<Rightarrow> hello" where
  "NewHello connectorID integrationID version capabilities toolVersions =
     \<lparr>hello_type = TypeHello, hello_connector = connectorID, hello_integration = integrationID,
      hello_version = version, hello_protocol = Version, hello_capabilities = capabilities,
      hello_tool_versions = toolVersions\<rparr>"

definition Deny :: "string \<Rightarrow> string \<Rightarrow> result_frame" where
  "Deny i reason =
     \<lparr>res_type = TypeResult, res_id = i, res_status = StatusDenied, res_reason = reason,
      res_body = None, res_truncated = False, res_bytes = 0\<rparr>"

text \<open>The format is \<open>%s\<close> at every call, so the reason is the argument itself.\<close>

definition Errorf :: "string \<Rightarrow> string \<Rightarrow> result_frame" where
  "Errorf i reason =
     \<lparr>res_type = TypeResult, res_id = i, res_status = StatusError, res_reason = reason,
      res_body = None, res_truncated = False, res_bytes = 0\<rparr>"

definition OK :: "string \<Rightarrow> string option \<Rightarrow> int \<Rightarrow> bool \<Rightarrow> result_frame" where
  "OK i body n truncated =
     \<lparr>res_type = TypeResult, res_id = i, res_status = StatusOK, res_reason = [],
      res_body = body, res_truncated = truncated, res_bytes = n\<rparr>"

subsection \<open>JSON texts\<close>

definition json_bool :: "bool \<Rightarrow> string" where
  "json_bool b = (if b then ''true'' else ''false'')"

text \<open>A slice field: \<open>nil\<close> is \<open>null\<close>.\<close>

definition json_strings :: "string list \<Rightarrow> string" where
  "json_strings ss = json_array (map quote_json ss)"

text \<open>A field with \<open>omitempty\<close>.\<close>

definition omit_empty :: "string \<Rightarrow> string \<Rightarrow> (string \<times> string) list" where
  "omit_empty k s = (if s = [] then [] else [(k, quote_json s)])"

definition hello_text :: "hello \<Rightarrow> string" where
  "hello_text h = json_object
     ([(''type'', quote_json (hello_type h)), (''connector_id'', quote_json (hello_connector h)),
       (''integration_id'', quote_json (hello_integration h)), (''version'', quote_json (hello_version h)),
       (''protocol'', quote_json (hello_protocol h)), (''capabilities'', json_strings (hello_capabilities h))] @
      (if hello_tool_versions h = [] then []
       else [(''tool_versions'', json_object (map (apsnd quote_json) (hello_tool_versions h)))]))"

definition result_members :: "result_frame \<Rightarrow> (string \<times> string) list" where
  "result_members r =
     [(''type'', quote_json (res_type r)), (''id'', quote_json (res_id r)),
      (''status'', quote_json (res_status r))] @ omit_empty ''reason'' (res_reason r) @
     (case res_body r of None \<Rightarrow> [] | Some t \<Rightarrow> [(''body'', t)]) @
     [(''truncated'', json_bool (res_truncated r)), (''bytes'', Itoa (res_bytes r))]"

definition result_text :: "result_frame \<Rightarrow> string" where
  "result_text r = json_object (result_members r)"

definition heartbeat_text :: "heartbeat_frame \<Rightarrow> string" where
  "heartbeat_text h = json_object
     [(''type'', quote_json (hb_type h)), (''ts'', quote_json (hb_ts h)),
      (''queue_depth'', Itoa (hb_queue_depth h))]"

subsection \<open>Facts\<close>

lemma values_for_simps [simp]:
  "values_for fs k [] = []"
  "values_for fs k ((k', t, v) # ms) =
     (if field_of fs k' = Some k then v # values_for fs k ms else values_for fs k ms)"
  by (simp_all add: values_for_def members_for_def)

lemma raw_for_Nil [simp]: "raw_for fs k [] = []"
  by (simp add: raw_for_def members_for_def)

lemma raw_for_snoc [simp]:
  "raw_for fs k (ms @ [(k', t, v)]) = (if field_of fs k' = Some k then t else raw_for fs k ms)"
  by (simp add: raw_for_def members_for_def)

lemma frame_members_object:
  assumes "members_in D ms" "Suc D \<le> max_nesting"
  shows "frame_members (json_object (texts ms)) = Some ms"
  using json_parse_in [OF encodes_in_object [OF assms(1)] assms(2)]
  by (simp add: frame_members_def struct_members_def)

lemma encodes_in_strings:
  assumes "list_all valid_utf8 ss"
  shows "encodes_in (Suc D) (json_strings ss) (JArr (map JStr ss))"
proof -
  let ?xs = "map (\<lambda>s. (quote_json s, JStr s)) ss"
  have "elems_in D ?xs" using assms by (simp add: elems_in_def list_all_iff encodes_in_string)
  from encodes_in_array [OF this] show ?thesis by (simp add: json_strings_def comp_def)
qed

lemma encodes_in_bool: "encodes_in D (json_bool b) (JBool b)"
  by (simp add: json_bool_def encodes_in_lits)

lemma printable_Itoa: "printable (Itoa i)"
proof -
  have "0x20 \<le> byte c" if "c \<in> set (Itoa i)" for c
    using Itoa_chars [OF that] by (auto simp: is_digit_def)
  then show ?thesis by (simp add: printable_def list_all_iff)
qed

lemma printable_join_values: "list_all printable vs \<Longrightarrow> printable (join_values vs)"
  by (induction vs rule: join_values.induct) (simp_all add: printable_Cons)

lemma printable_json_array: "list_all printable vs \<Longrightarrow> printable (json_array vs)"
  by (simp add: json_array_def printable_Cons printable_join_values)

lemma printable_json_bool: "printable (json_bool b)"
  by (simp add: json_bool_def printable_Cons)

lemmas printable_texts = printable_quote_json printable_Itoa printable_json_array printable_json_bool
  printable_json_object

end
