(* ===== verification/Protocol_Properties.thy ===== *)
theory Protocol_Properties
  imports Protocol
begin

text \<open>
  The wire format: what the broker encodes is what the connector decodes, and every
  frame the connector sends is one line of JSON whose discriminator reads back.
\<close>

text \<open>A command frame as the broker writes it.\<close>

definition command_text :: "command \<Rightarrow> string" where
  "command_text c = json_object
     [(''type'', quote_json (cmd_type c)), (''id'', quote_json (cmd_id c)),
      (''verb'', quote_json (cmd_verb c)), (''args'', cmd_args c),
      (''deadline_ms'', Itoa (cmd_deadline_ms c)), (''max_bytes'', Itoa (cmd_max_bytes c))]"

definition command_members :: "command \<Rightarrow> json \<Rightarrow> (string \<times> string \<times> json) list" where
  "command_members c v =
     [(''type'', quote_json (cmd_type c), JStr (cmd_type c)), (''id'', quote_json (cmd_id c), JStr (cmd_id c)),
      (''verb'', quote_json (cmd_verb c), JStr (cmd_verb c)), (''args'', cmd_args c, v),
      (''deadline_ms'', Itoa (cmd_deadline_ms c), JNum (Itoa (cmd_deadline_ms c))),
      (''max_bytes'', Itoa (cmd_max_bytes c), JNum (Itoa (cmd_max_bytes c)))]"

definition command_ok :: "command \<Rightarrow> bool" where
  "command_ok c \<longleftrightarrow>
     list_all valid_utf8 [cmd_type c, cmd_id c, cmd_verb c] \<and>
     in_int64 (cmd_deadline_ms c) \<and> in_int64 (cmd_max_bytes c)"

lemma fold_ne:
  "field_of [''type''] ''id'' = None" "field_of [''type''] ''verb'' = None"
  "field_of [''type''] ''args'' = None" "field_of [''type''] ''deadline_ms'' = None"
  "field_of [''type''] ''max_bytes'' = None"
  by code_simp+

text \<open>C23. A command frame survives the wire: for every command whose strings are UTF-8
  and whose numbers are 64-bit, with any \<open>args\<close> value nested less than 9999 deep, the
  frame is routed by its type and decodes to exactly that command, the \<open>args\<close> bytes
  untouched.\<close>

theorem command_roundtrip:
  assumes "command_ok c" "encodes_in D (cmd_args c) v" "D < max_nesting" "cmd_type c \<noteq> []"
  shows "DecodeEnvelope (command_text c) = Inr (cmd_type c) \<and> decode_command (command_text c) = Some c"
proof -
  let ?ms = "command_members c v"
  have "members_in D ?ms"
    using assms(1,2) by (simp add: command_members_def command_ok_def valid_utf8_ascii encodes_in_string encodes_in_int)
  moreover have "command_text c = json_object (texts ?ms)"
    by (simp add: command_text_def command_members_def)
  ultimately have fm: "frame_members (command_text c) = Some ?ms"
    using frame_members_object assms(3) by simp
  have one: "field_of [''type''] ''type'' = Some ''type''" by simp
  have num: "ParseInt (Itoa (cmd_deadline_ms c)) = Some (cmd_deadline_ms c)"
    "ParseInt (Itoa (cmd_max_bytes c)) = Some (cmd_max_bytes c)"
    using assms(1) by (simp_all add: command_ok_def ParseInt_Itoa)
  have raw: "raw_for command_fields ''args'' ?ms = cmd_args c"
    by (simp add: raw_for_def members_for_def command_members_def command_fields_def)
  have "DecodeEnvelope (command_text c) = Inr (cmd_type c)"
    unfolding DecodeEnvelope_def fm using assms(4)
    by (simp add: field_bad_def field_value_def command_members_def one fold_ne any_type_error_def as_string_def)
  moreover have "decode_command (command_text c) = Some c"
    unfolding decode_command_def fm Let_def
    by (simp add: raw) (simp add: field_bad_def field_value_def command_members_def command_fields_def
        any_type_error_def as_string_def as_int_def num)
  ultimately show ?thesis ..
qed

definition ping_command :: command where
  "ping_command = \<lparr>cmd_type = TypeCommand, cmd_id = ''c-1'', cmd_verb = ''sys.ping'', cmd_args = ''null'',
     cmd_deadline_ms = 1000, cmd_max_bytes = 0\<rparr>"

theorem command_roundtrip_witness:
  "decode_command (command_text ping_command) = Some ping_command"
proof -
  have "command_ok ping_command"
    by (simp add: command_ok_def ping_command_def TypeCommand_def valid_utf8_ascii in_int64_def
        int64_min_def int64_max_def)
  moreover have "encodes_in 0 (cmd_args ping_command) JNull"
    by (simp add: ping_command_def encodes_in_lits)
  moreover have "cmd_type ping_command \<noteq> []" by (simp add: ping_command_def TypeCommand_def)
  ultimately show ?thesis
    using command_roundtrip [of ping_command 0 JNull] by (simp add: max_nesting_def)
qed

definition member :: "string \<Rightarrow> (string \<times> string \<times> json) list \<Rightarrow> json option" where
  "member k ms = map_of (map (\<lambda>(k, t, v). (k, v)) ms) k"

lemma member_simps [simp]:
  "member k [] = None"
  "member k ((k', t, v) # ms) = (if k' = k then Some v else member k ms)"
  by (simp_all add: member_def)

definition result_values :: "result_frame \<Rightarrow> json option \<Rightarrow> (string \<times> string \<times> json) list" where
  "result_values r b =
     [(''type'', quote_json (res_type r), JStr (res_type r)), (''id'', quote_json (res_id r), JStr (res_id r)),
      (''status'', quote_json (res_status r), JStr (res_status r))] @
     (if res_reason r = [] then [] else [(''reason'', quote_json (res_reason r), JStr (res_reason r))]) @
     (case (res_body r, b) of (Some t, Some v) \<Rightarrow> [(''body'', t, v)] | _ \<Rightarrow> []) @
     [(''truncated'', json_bool (res_truncated r), JBool (res_truncated r)),
      (''bytes'', Itoa (res_bytes r), JNum (Itoa (res_bytes r)))]"

definition result_ok :: "result_frame \<Rightarrow> bool" where
  "result_ok r \<longleftrightarrow> list_all valid_utf8 [res_type r, res_id r, res_status r, res_reason r]"

lemma result_parse:
  assumes "result_ok r" "rel_option (encodes_in D) (res_body r) b" "D < max_nesting"
  shows "json_parse (result_text r) = Some (JObj (result_values r b))"
proof -
  have "members_in D (result_values r b)"
    using assms(1,2)
    by (cases "res_body r"; cases b)
      (auto simp: result_values_def result_ok_def valid_utf8_ascii encodes_in_string encodes_in_int encodes_in_bool)
  moreover have "result_text r = json_object (texts (result_values r b))"
    using assms(2)
    by (cases "res_body r"; cases b) (auto simp: result_text_def result_members_def result_values_def omit_empty_def)
  ultimately show ?thesis using json_parse_in [OF encodes_in_object] assms(3) by simp
qed

text \<open>C24. A result frame says what the connector meant: for any result whose strings are
  UTF-8 and whose body, if it has one, is the text of a JSON value, the frame parses,
  routes as its own type, and its fields read back as the result's; a reason is
  there exactly when it is not empty and a body exactly when there is one.\<close>

theorem result_frame_wire:
  assumes "result_ok r" "rel_option (encodes_in D) (res_body r) b" "D < max_nesting" "res_type r \<noteq> []"
  shows "DecodeEnvelope (result_text r) = Inr (res_type r) \<and>
    (\<exists>ms. json_parse (result_text r) = Some (JObj ms) \<and>
      member ''id'' ms = Some (JStr (res_id r)) \<and>
      member ''status'' ms = Some (JStr (res_status r)) \<and>
      member ''reason'' ms = (if res_reason r = [] then None else Some (JStr (res_reason r))) \<and>
      member ''body'' ms = b \<and>
      member ''truncated'' ms = Some (JBool (res_truncated r)) \<and>
      member ''bytes'' ms = Some (JNum (Itoa (res_bytes r))))"
proof
  note parse = result_parse [OF assms(1-3)]
  have fld: "field_of [''type''] ''type'' = Some ''type''" "field_of [''type''] ''id'' = None"
    "field_of [''type''] ''status'' = None" "field_of [''type''] ''reason'' = None"
    "field_of [''type''] ''body'' = None" "field_of [''type''] ''truncated'' = None"
    "field_of [''type''] ''bytes'' = None"
    by code_simp+
  have "values_for [''type''] ''type'' (result_values r b) = [JStr (res_type r)]"
    by (cases "res_body r"; cases b) (simp_all add: result_values_def fld)
  then show "DecodeEnvelope (result_text r) = Inr (res_type r)"
    using assms(4) by (simp add: DecodeEnvelope_def frame_members_def parse struct_members_def
        field_bad_def field_value_def any_type_error_def as_string_def)
  show "\<exists>ms. json_parse (result_text r) = Some (JObj ms) \<and>
      member ''id'' ms = Some (JStr (res_id r)) \<and>
      member ''status'' ms = Some (JStr (res_status r)) \<and>
      member ''reason'' ms = (if res_reason r = [] then None else Some (JStr (res_reason r))) \<and>
      member ''body'' ms = b \<and>
      member ''truncated'' ms = Some (JBool (res_truncated r)) \<and>
      member ''bytes'' ms = Some (JNum (Itoa (res_bytes r)))"
    using parse assms(2) by (cases "res_body r"; cases b) (auto simp: result_values_def)
qed

theorem result_frame_wire_witness:
  "DecodeEnvelope (result_text (Deny ''c-1'' ''unknown_verb'')) = Inr ''result''"
proof -
  have "result_ok (Deny ''c-1'' ''unknown_verb'')"
    by (simp add: result_ok_def Deny_def token_defs valid_utf8_ascii)
  then show ?thesis
    using result_frame_wire [of "Deny ''c-1'' ''unknown_verb''" 0 None]
    by (simp add: Deny_def TypeResult_def max_nesting_def)
qed

text \<open>
  The frames the connector writes are lines of printable text, whatever bytes their
  strings hold, as soon as the body of a result is.
\<close>

lemma frame_texts_printable:
  "(case res_body r of None \<Rightarrow> True | Some t \<Rightarrow> printable t) \<Longrightarrow> printable (result_text r)"
  "printable (heartbeat_text h)"
  "printable (hello_text g)"
proof -
  assume "case res_body r of None \<Rightarrow> True | Some t \<Rightarrow> printable t"
  then have "list_all (\<lambda>(k, v). printable v) (result_members r)"
    by (auto simp: result_members_def omit_empty_def printable_texts split: option.splits)
  then show "printable (result_text r)"
    unfolding result_text_def by (rule printable_json_object)
next
  show "printable (heartbeat_text h)"
    unfolding heartbeat_text_def by (rule printable_json_object) (simp add: printable_texts)
  have "printable (json_object (map (apsnd quote_json) vs))" for vs
    by (rule printable_json_object) (auto simp: list_all_iff printable_quote_json)
  moreover have "printable (json_strings ss)" for ss
    unfolding json_strings_def by (rule printable_json_array) (simp add: list_all_iff printable_quote_json)
  ultimately show "printable (hello_text g)"
    unfolding hello_text_def by (intro printable_json_object) (auto simp: printable_quote_json)
qed

end
