(* ===== verification/Audit_Log.thy ===== *)
theory Audit_Log
  imports Protocol "HOL-Library.Char_ord" "HOL-Library.List_Lexorder"
begin

text \<open>
  \<open>internal/audit/audit.go\<close>: the local audit log. Parameters: the operating system's
  \<open>OpenFile\<close> and \<open>Write\<close>, the mirror's \<open>Write\<close>, \<open>filepath.Join\<close>, the clock's two renderings, SHA-256, and
  the shortest decimal text of the 64-bit float a JSON number denotes.
\<close>

subsection \<open>Entries\<close>

record entry =
  e_ts :: string
  e_event :: string
  e_session :: string
  e_command :: string
  e_verb :: string
  e_args_sha :: string
  e_status :: string
  e_reason :: string
  e_detail :: string
  e_bytes_out :: int
  e_duration_ms :: int
  e_truncated :: bool
  e_message :: string

definition zero_entry :: "string \<Rightarrow> entry" where
  "zero_entry ev =
     \<lparr>e_ts = [], e_event = ev, e_session = [], e_command = [], e_verb = [], e_args_sha = [],
      e_status = [], e_reason = [], e_detail = [], e_bytes_out = 0, e_duration_ms = 0,
      e_truncated = False, e_message = []\<rparr>"

definition omit_zero :: "string \<Rightarrow> int \<Rightarrow> (string \<times> string) list" where
  "omit_zero k i = (if i = 0 then [] else [(k, Itoa i)])"

definition entry_members :: "entry \<Rightarrow> (string \<times> string) list" where
  "entry_members e =
     [(''ts'', quote_json (e_ts e)), (''event'', quote_json (e_event e))] @
     omit_empty ''session_id'' (e_session e) @ omit_empty ''command_id'' (e_command e) @
     omit_empty ''verb'' (e_verb e) @ omit_empty ''args_sha256'' (e_args_sha e) @
     omit_empty ''status'' (e_status e) @ omit_empty ''reason'' (e_reason e) @
     omit_empty ''detail'' (e_detail e) @ omit_zero ''bytes_out'' (e_bytes_out e) @
     omit_zero ''duration_ms'' (e_duration_ms e) @
     (if e_truncated e then [(''truncated'', ''true'')] else []) @
     omit_empty ''message'' (e_message e)"

definition entry_text :: "entry \<Rightarrow> string" where
  "entry_text e = json_object (entry_members e)"

subsection \<open>The logger\<close>

text \<open>
  An open file is its path and whether \<open>Close\<close> was called on it. \<open>files\<close> and
  \<open>mirror_shown\<close> are what has reached the disk and the mirror: of the bytes handed to a
  \<open>Write\<close>, what \<open>file_write\<close> and \<open>mirror_write\<close> let through, since the code ignores errors
  and short writes. \<open>mirrored\<close> is what was handed to the mirror's \<open>Write\<close>.
\<close>

record logger =
  lg_dir :: string
  lg_day :: string
  lg_file :: "(string \<times> bool) option"
  lg_mirror :: bool

record audit_disk =
  files :: "string \<Rightarrow> string"
  mirrored :: string
  mirror_shown :: string

record audit_os =
  join_path :: "string \<Rightarrow> string \<Rightarrow> string"
  can_open :: "string \<Rightarrow> bool"
  file_write :: "string \<Rightarrow> string"
  mirror_write :: "string \<Rightarrow> string"

record instant =
  at_stamp :: string
  at_day :: string

definition new_logger :: "string \<Rightarrow> bool \<Rightarrow> bool \<Rightarrow> logger option" where
  "new_logger dir mkdir_ok mirror =
     (if \<not> mkdir_ok then None
      else Some \<lparr>lg_dir = dir, lg_day = [], lg_file = None, lg_mirror = mirror\<rparr>)"

text \<open>When the new day's file cannot be opened, the old handle stays, already closed.\<close>

definition rotate_log :: "audit_os \<Rightarrow> string \<Rightarrow> logger \<Rightarrow> bool \<times> logger" where
  "rotate_log os day l =
     (if lg_file l \<noteq> None \<and> lg_day l = day then (True, l)
      else let l' = l\<lparr>lg_file := map_option (\<lambda>(p, _). (p, True)) (lg_file l)\<rparr>;
               path = join_path os (lg_dir l) (''audit-'' @ day @ ''.log'')
           in if \<not> can_open os path then (False, l')
              else (True, l'\<lparr>lg_file := Some (path, False), lg_day := day\<rparr>))"

definition write_entry :: "audit_os \<Rightarrow> instant \<Rightarrow> entry \<Rightarrow> logger \<times> audit_disk \<Rightarrow> logger \<times> audit_disk" where
  "write_entry os now e s =
     (let (l, d) = s;
          e' = (if e_ts e = [] then e\<lparr>e_ts := at_stamp now\<rparr> else e);
          b = entry_text e' @ [CHR 0x0A];
          (ok, l') = rotate_log os (at_day now) l;
          d' = (case lg_file l' of
                  Some (p, False) \<Rightarrow>
                    if ok then d\<lparr>files := (files d)(p := files d p @ file_write os b)\<rparr> else d
                | _ \<Rightarrow> d)
      in (l', if lg_mirror l'
              then d'\<lparr>mirrored := mirrored d' @ b, mirror_shown := mirror_shown d' @ mirror_write os b\<rparr>
              else d'))"

definition log_event :: "audit_os \<Rightarrow> instant \<Rightarrow> string \<Rightarrow> string \<Rightarrow> logger \<times> audit_disk \<Rightarrow> logger \<times> audit_disk" where
  "log_event os now ev message = write_entry os now ((zero_entry ev)\<lparr>e_message := message\<rparr>)"

definition close_log :: "logger \<Rightarrow> logger" where
  "close_log l = (if lg_file l = None then l else l\<lparr>lg_file := None\<rparr>)"

subsection \<open>The digest\<close>

text \<open>
  A decoded value written back by \<open>Marshal\<close>: the keys of a map are sorted, a key that
  came twice keeps its last value, and a number is the text of its float;
  \<^const>\<open>None\<close> when a number is out of range, which fails the decoding.
\<close>

definition sorted_members :: "(string \<times> string) list \<Rightarrow> (string \<times> string) list" where
  "sorted_members ms = map (\<lambda>k. (k, the (last_of ms k))) (sort (remdups (map fst ms)))"

fun canon :: "(string \<Rightarrow> string option) \<Rightarrow> json \<Rightarrow> string option"
  and canon_list :: "(string \<Rightarrow> string option) \<Rightarrow> json list \<Rightarrow> string list option"
  and canon_members :: "(string \<Rightarrow> string option) \<Rightarrow> (string \<times> string \<times> json) list \<Rightarrow> (string \<times> string) list option" where
  "canon num JNull = Some ''null''"
| "canon num (JBool b) = Some (json_bool b)"
| "canon num (JNum l) = num l"
| "canon num (JStr s) = Some (quote_json s)"
| "canon num (JArr vs) = map_option json_array (canon_list num vs)"
| "canon num (JObj ms) = map_option (\<lambda>ts. json_object (sorted_members ts)) (canon_members num ms)"
| "canon_list num [] = Some []"
| "canon_list num (v # vs) =
     (case canon num v of None \<Rightarrow> None | Some t \<Rightarrow> map_option ((#) t) (canon_list num vs))"
| "canon_members num [] = Some []"
| "canon_members num ((k, r, v) # ms) =
     (case canon num v of None \<Rightarrow> None | Some t \<Rightarrow> map_option ((#) (k, t)) (canon_members num ms))"

definition hex_byte :: "char \<Rightarrow> string" where
  "hex_byte c = [hex_digit (byte c div 16), hex_digit (byte c mod 16)]"

definition canonical_args :: "(string \<Rightarrow> string option) \<Rightarrow> string \<Rightarrow> string" where
  "canonical_args num raw0 =
     (let raw = (if raw0 = [] then ''{}'' else raw0)
      in case json_parse raw of
           Some (JObj ms) \<Rightarrow> (case canon num (JObj ms) of Some t \<Rightarrow> t | None \<Rightarrow> raw)
         | Some JNull \<Rightarrow> ''null''
         | _ \<Rightarrow> raw)"

definition ArgsDigest :: "(string \<Rightarrow> string) \<Rightarrow> (string \<Rightarrow> string option) \<Rightarrow> string \<Rightarrow> string" where
  "ArgsDigest sha256 num raw = concat (map hex_byte (sha256 (canonical_args num raw)))"

subsection \<open>One entry is one line\<close>

lemma printable_entry: "printable (entry_text e)"
proof -
  have "list_all (\<lambda>(k, v). printable v) (entry_members e)"
    by (simp add: entry_members_def omit_empty_def omit_zero_def printable_texts printable_Cons)
  then show ?thesis unfolding entry_text_def by (rule printable_json_object)
qed

lemma entry_one_line: "CHR 0x0A \<notin> set (entry_text e)"
  using printable_no_newline [OF printable_entry] .

text \<open>
  What a writer of log lines promises: each write appends the entry's line, which
  holds no newline, and one newline. Its client can then read entries off the output.
\<close>

locale line_sink =
  fixes put :: "'e \<Rightarrow> 's \<Rightarrow> 's"
    and shown :: "'s \<Rightarrow> string"
    and line :: "'e \<Rightarrow> string"
    and live :: "'s \<Rightarrow> bool"
  assumes appends: "live s \<Longrightarrow> shown (put e s) = shown s @ line e @ [CHR 0x0A]"
    and stays: "live s \<Longrightarrow> live (put e s)"
    and one_line: "CHR 0x0A \<notin> set (line e)"
begin

lemma fold_appends:
  "live s \<Longrightarrow> shown (fold put es s) = shown s @ concat (map (\<lambda>e. line e @ [CHR 0x0A]) es)"
  by (induction es arbitrary: s) (simp_all add: appends stays)

lemma split_lines:
  "Split (concat (map (\<lambda>e. line e @ [CHR 0x0A]) es)) CHR 0x0A = map line es @ [[]]"
  by (induction es) (simp_all add: Split_append [OF one_line])

lemma reads_back:
  "live s \<Longrightarrow> shown s = [] \<Longrightarrow> Split (shown (fold put es s)) CHR 0x0A = map line es @ [[]]"
  by (simp add: fold_appends split_lines)

end

lemma rotate_mirror: "lg_mirror (snd (rotate_log os day l)) = lg_mirror l"
  by (simp add: rotate_log_def Let_def)

lemma write_entry_mirror:
  assumes "lg_mirror (fst s)"
  shows "mirrored (snd (write_entry os now e s)) = mirrored (snd s) @
      entry_text (if e_ts e = [] then e\<lparr>e_ts := at_stamp now\<rparr> else e) @ [CHR 0x0A]"
    and "lg_mirror (fst (write_entry os now e s))"
    and "mirror_shown (snd (write_entry os now e s)) = mirror_shown (snd s) @
      mirror_write os (entry_text (if e_ts e = [] then e\<lparr>e_ts := at_stamp now\<rparr> else e) @ [CHR 0x0A])"
  using assms rotate_mirror [of os "at_day now" "fst s"]
  by (auto simp: write_entry_def Let_def split: prod.splits option.splits bool.splits)

text \<open>The mirror, for entries with their instants.\<close>

definition put_at :: "audit_os \<Rightarrow> instant \<times> entry \<Rightarrow> logger \<times> audit_disk \<Rightarrow> logger \<times> audit_disk" where
  "put_at os x = write_entry os (fst x) (snd x)"

definition line_at :: "instant \<times> entry \<Rightarrow> string" where
  "line_at x = entry_text (if e_ts (snd x) = [] then (snd x)\<lparr>e_ts := at_stamp (fst x)\<rparr> else snd x)"

interpretation mirror: line_sink "put_at os" "\<lambda>s. mirrored (snd s)" line_at "\<lambda>s. lg_mirror (fst s)" for os
  by unfold_locales (simp_all add: put_at_def line_at_def write_entry_mirror entry_one_line)

lemma mirror_shown_fold:
  "lg_mirror (fst s) \<Longrightarrow> mirror_shown (snd (fold (put_at os) xs s)) =
     mirror_shown (snd s) @ concat (map (\<lambda>x. mirror_write os (line_at x @ [CHR 0x0A])) xs)"
proof (induction xs arbitrary: s)
  case (Cons x xs)
  then show ?case using Cons.IH [OF mirror.stays [OF Cons.prems]] write_entry_mirror(3) [OF Cons.prems]
    by (simp add: put_at_def line_at_def)
qed simp

text \<open>The file of one day, while the system opens it and takes every write whole.\<close>

definition day_file :: "audit_os \<Rightarrow> string \<Rightarrow> logger \<Rightarrow> string" where
  "day_file os day l = join_path os (lg_dir l) (''audit-'' @ day @ ''.log'')"

definition file_live :: "audit_os \<Rightarrow> string \<Rightarrow> logger \<times> audit_disk \<Rightarrow> bool" where
  "file_live os day s \<longleftrightarrow>
     can_open os (day_file os day (fst s)) \<and> file_write os = id \<and>
     (lg_file (fst s) = None \<or> lg_day (fst s) \<noteq> day \<or> lg_file (fst s) = Some (day_file os day (fst s), False))"

definition put_day :: "audit_os \<Rightarrow> string \<Rightarrow> string \<times> entry \<Rightarrow> logger \<times> audit_disk \<Rightarrow> logger \<times> audit_disk" where
  "put_day os day x = write_entry os \<lparr>at_stamp = fst x, at_day = day\<rparr> (snd x)"

definition line_day :: "string \<times> entry \<Rightarrow> string" where
  "line_day x = entry_text (if e_ts (snd x) = [] then (snd x)\<lparr>e_ts := fst x\<rparr> else snd x)"

lemma rotate_live:
  assumes "file_live os day (l, d)"
  shows "fst (rotate_log os day l) \<and> lg_file (snd (rotate_log os day l)) = Some (day_file os day l, False) \<and>
    lg_day (snd (rotate_log os day l)) = day \<and> lg_dir (snd (rotate_log os day l)) = lg_dir l"
  using assms by (auto simp: rotate_log_def file_live_def day_file_def Let_def)

lemma write_entry_file:
  assumes "file_live os day (l, d)"
  shows "files (snd (put_day os day x (l, d))) = (files d)(day_file os day l :=
      files d (day_file os day l) @ line_day x @ [CHR 0x0A])"
    and "lg_file (fst (put_day os day x (l, d))) = Some (day_file os day l, False)"
    and "lg_dir (fst (put_day os day x (l, d))) = lg_dir l"
  using rotate_live [OF assms] assms
  by (auto simp: put_day_def write_entry_def line_day_def file_live_def Let_def split: prod.splits)

lemma day_file_put: "file_live os day s \<Longrightarrow> day_file os day (fst (put_day os day x s)) = day_file os day (fst s)"
  using write_entry_file(3) [of os day "fst s" "snd s" x] by (simp add: day_file_def)

interpretation daily: line_sink "put_day os day"
    "\<lambda>s. files (snd s) (day_file os day (fst s))" line_day "file_live os day" for os day
proof
  fix s :: "logger \<times> audit_disk" and x :: "string \<times> entry"
  assume live: "file_live os day s"
  then have l: "file_live os day (fst s, snd s)" by simp
  show "files (snd (put_day os day x s)) (day_file os day (fst (put_day os day x s))) =
      files (snd s) (day_file os day (fst s)) @ line_day x @ [CHR 0x0A]"
    using write_entry_file(1) [OF l, of x] day_file_put [OF live] by simp
  show "file_live os day (put_day os day x s)"
    using write_entry_file(2) [OF l, of x] day_file_put [OF live] live by (simp add: file_live_def)
next
  show "CHR 0x0A \<notin> set (line_day x)" for x by (simp add: line_day_def entry_one_line)
qed

subsection \<open>The digest and the order of keys\<close>

text \<open>
  When two values decode to the same Go value, at every depth: the members of an object
  are compared by key, the last of a repeated key counting, whatever their order and
  their text; two numbers are the same when their floats are.
\<close>

definition member_values :: "(string \<times> string \<times> json) list \<Rightarrow> (string \<times> json) list" where
  "member_values ms = map (\<lambda>(k, t, v). (k, v)) ms"

inductive json_same :: "(string \<Rightarrow> string option) \<Rightarrow> json \<Rightarrow> json \<Rightarrow> bool" for num where
  same_null: "json_same num JNull JNull"
| same_bool: "json_same num (JBool b) (JBool b)"
| same_num: "num l = num l' \<Longrightarrow> json_same num (JNum l) (JNum l')"
| same_str: "json_same num (JStr s) (JStr s)"
| same_arr: "list_all2 (json_same num) vs ws \<Longrightarrow> json_same num (JArr vs) (JArr ws)"
| same_obj: "(\<And>k. rel_option (json_same num) (last_of (member_values ms) k) (last_of (member_values ns) k)) \<Longrightarrow>
    json_same num (JObj ms) (JObj ns)"
monos option.rel_mono

definition in_float_range :: "(string \<Rightarrow> string option) \<Rightarrow> json \<Rightarrow> bool" where
  "in_float_range num v \<longleftrightarrow> list_all (\<lambda>l. num l \<noteq> None) (json_numbers v)"

lemma in_float_range_simps [simp]:
  "in_float_range num JNull" "in_float_range num (JBool b)" "in_float_range num (JStr s)"
  "in_float_range num (JNum l) \<longleftrightarrow> num l \<noteq> None"
  "in_float_range num (JArr vs) \<longleftrightarrow> list_all (in_float_range num) vs"
  "in_float_range num (JObj ms) \<longleftrightarrow> list_all (\<lambda>(k, t, v). in_float_range num v) ms"
  by (force simp: in_float_range_def list_all_iff)+

lemma canon_decodes:
  "canon num v \<noteq> None \<longleftrightarrow> in_float_range num v"
  "canon_list num vs \<noteq> None \<longleftrightarrow> list_all (in_float_range num) vs"
  "canon_members num ms \<noteq> None \<longleftrightarrow> list_all (\<lambda>(k, t, v). in_float_range num v) ms"
  by (induction v and vs and ms rule: canon_canon_list_canon_members.induct) (auto split: option.splits)

lemma last_of_Cons:
  "last_of ((k', v) # xs) k = (case last_of xs k of Some w \<Rightarrow> Some w | None \<Rightarrow> if k = k' then Some v else None)"
  by (simp add: last_of_def map_add_def split: option.split)

lemma canon_members_values:
  "canon_members num ms = Some ts \<Longrightarrow>
     list_all2 (\<lambda>(k, v) (k', t). k' = k \<and> canon num v = Some t) (member_values ms) ts"
  by (induction ms arbitrary: ts) (auto simp: member_values_def split: option.splits)

lemma last_of_rel:
  "list_all2 (\<lambda>(k, v) (k', t). k' = k \<and> f v = Some t) vs ts \<Longrightarrow>
     last_of ts k = Option.bind (last_of vs k) f"
proof (induction rule: list_all2_induct)
  case (Cons x vs y ts)
  have "\<exists>t. f w = Some t" if "last_of vs k = Some w" for w
    using last_of_Some_in [OF that] Cons.hyps(2) by (force simp: list_all2_conv_all_nth in_set_conv_nth)
  with Cons show ?case by (auto simp: last_of_Cons split: option.split bind_split prod.splits)
qed simp

lemma canon_members_last:
  "canon_members num ms = Some ts \<Longrightarrow> last_of ts k = Option.bind (last_of (member_values ms) k) (canon num)"
  by (rule last_of_rel [OF canon_members_values])

lemma sorted_members_cong:
  assumes "fst ` set ts = fst ` set us" "\<And>k. last_of ts k = last_of us k"
  shows "sorted_members ts = sorted_members us"
proof -
  have "sort (remdups (map fst ts)) = sort (remdups (map fst us))"
    using assms(1) by (intro sorted_distinct_set_unique) simp_all
  then show ?thesis by (simp add: sorted_members_def assms(2))
qed

lemma canon_same:
  assumes "json_same num v w" "in_float_range num v" "in_float_range num w"
  shows "canon num v = canon num w"
  using assms
proof (induction rule: json_same.induct)
  case (same_arr vs ws)
  from same_arr.IH same_arr.prems have "canon_list num vs = canon_list num ws"
    by (simp add: in_float_range_simps) (induction rule: list_all2_induct, auto split: option.split)
  then show ?case by simp
next
  case (same_obj ms ns)
  then obtain ts us where c: "canon_members num ms = Some ts" "canon_members num ns = Some us"
    using canon_decodes(3) [of num ms] canon_decodes(3) [of num ns] by auto
  note ts = canon_members_last [OF c(1)] and us = canon_members_last [OF c(2)]
  have in_range: "in_float_range num v" if "last_of (member_values xs) k = Some v"
    "list_all (\<lambda>(k, t, v). in_float_range num v) xs" for xs k v
    using last_of_Some_in [OF that(1)] that(2) by (auto simp: member_values_def list_all_iff)
  have last: "last_of ts k = last_of us k" for k
    using same_obj.IH [of k] same_obj.prems in_range
    unfolding ts us
    by (cases "last_of (member_values ms) k"; cases "last_of (member_values ns) k") auto
  have "k \<in> fst ` set ts \<longleftrightarrow> k \<in> fst ` set us" for k
    using last [of k] last_of_None_iff [of ts k] last_of_None_iff [of us k] by simp
  then have "sorted_members ts = sorted_members us" using last by (intro sorted_members_cong) blast+
  then show ?case by (simp add: c)
qed simp_all

end
