(* ===== verification/Audit_Properties.thy ===== *)
theory Audit_Properties
  imports Audit_Log
begin

text \<open>
  The audit log as evidence: one line per entry, in order, in the day's file and on
  the mirror, and a digest that does not depend on how the broker ordered the keys.
\<close>

text \<open>C26. Whatever the disk does, the mirror is handed exactly one line per entry, in
  order: splitting it at newlines gives back the entries' JSON texts and nothing else,
  whatever bytes the entries' strings hold. What the mirror shows is what its \<open>Write\<close> lets
  through of each line; a mirror that takes writes whole shows exactly these lines.\<close>

theorem audit_mirror_lines:
  assumes "lg_mirror l"
  shows "Split (mirrored (snd (fold (put_at os) xs (l, \<lparr>files = fs, mirrored = [], mirror_shown = []\<rparr>)))) CHR 0x0A =
      map line_at xs @ [[]] \<and>
    mirror_shown (snd (fold (put_at os) xs (l, \<lparr>files = fs, mirrored = [], mirror_shown = []\<rparr>))) =
      concat (map (\<lambda>x. mirror_write os (line_at x @ [CHR 0x0A])) xs) \<and>
    (mirror_write os = id \<longrightarrow>
      Split (mirror_shown (snd (fold (put_at os) xs (l, \<lparr>files = fs, mirrored = [], mirror_shown = []\<rparr>)))) CHR 0x0A =
        map line_at xs @ [[]])"
proof -
  let ?s = "(l, \<lparr>files = fs, mirrored = [], mirror_shown = []\<rparr>)"
  have live: "lg_mirror (fst ?s)" using assms by simp
  have "Split (concat (map (\<lambda>x. line_at x @ [CHR 0x0A]) xs)) CHR 0x0A = map line_at xs @ [[]]"
    by (rule mirror.split_lines)
  then show ?thesis using mirror.reads_back [OF live] mirror_shown_fold [OF live] by simp
qed

theorem audit_mirror_lines_witness:
  "\<exists>l. lg_mirror l \<and> (\<forall>os t fs. Split (mirrored (snd (fold (put_at os)
      [(t, zero_entry ''startup'')] (l, \<lparr>files = fs, mirrored = [], mirror_shown = []\<rparr>)))) CHR 0x0A =
    [line_at (t, zero_entry ''startup''), []])"
proof (intro exI [of _ "\<lparr>lg_dir = ''/l'', lg_day = [], lg_file = None, lg_mirror = True\<rparr>"] conjI allI)
  let ?l = "\<lparr>lg_dir = ''/l'', lg_day = [], lg_file = None, lg_mirror = True\<rparr>"
  show l: "lg_mirror ?l" by simp
  show "Split (mirrored (snd (fold (put_at os) [(t, zero_entry ''startup'')]
      (?l, \<lparr>files = fs, mirrored = [], mirror_shown = []\<rparr>)))) CHR 0x0A = [line_at (t, zero_entry ''startup''), []]" for os t fs
    using audit_mirror_lines [OF l, of os "[(t, zero_entry ''startup'')]" fs] by simp
qed

text \<open>As long as the day's file can be opened and takes writes whole, a day's
  entries are appended to it line by line after what it already held, in order, even
  when the logger still had another day's file open; no other file changes.\<close>

theorem audit_file_lines:
  assumes "file_live os day s"
  shows "files (snd (fold (put_day os day) xs s)) = (files (snd s))(day_file os day (fst s) :=
     files (snd s) (day_file os day (fst s)) @ concat (map (\<lambda>x. line_day x @ [CHR 0x0A]) xs))"
  using assms
proof (induction xs arbitrary: s)
  case (Cons x xs)
  have l: "file_live os day (fst s, snd s)" using Cons.prems by simp
  have w: "files (snd (put_day os day x s)) = (files (snd s))(day_file os day (fst s) :=
      files (snd s) (day_file os day (fst s)) @ line_day x @ [CHR 0x0A])"
    using write_entry_file(1) [OF l, of x] by simp
  show ?case
    using Cons.IH [OF daily.stays [OF Cons.prems, of x]]
    by (simp add: day_file_put [OF Cons.prems] w) (simp add: fun_eq_iff)
qed simp

definition plain_os :: audit_os where
  "plain_os = \<lparr>join_path = (\<lambda>d f. d @ ''/'' @ f), can_open = (\<lambda>_. True), file_write = id, mirror_write = id\<rparr>"

definition stale_logger :: logger where
  "stale_logger = \<lparr>lg_dir = ''/l'', lg_day = ''2026-01-01'', lg_file = Some (''/l/audit-2026-01-01.log'', False),
     lg_mirror = False\<rparr>"

theorem audit_file_lines_witness:
  "files (snd (put_day plain_os ''2026-01-02'' (''t'', zero_entry ''startup'')
     (stale_logger, \<lparr>files = (\<lambda>_. []), mirrored = [], mirror_shown = []\<rparr>))) ''/l/audit-2026-01-02.log'' =
   line_day (''t'', zero_entry ''startup'') @ [CHR 0x0A]"
proof -
  have "file_live plain_os ''2026-01-02'' (stale_logger, \<lparr>files = (\<lambda>_. []), mirrored = [], mirror_shown = []\<rparr>)"
    by (simp add: file_live_def plain_os_def stale_logger_def)
  from audit_file_lines [OF this, of "[(''t'', zero_entry ''startup'')]"] show ?thesis
    by (simp add: day_file_def plain_os_def stale_logger_def)
qed

text \<open>C27. The digest is canonical at every depth: two argument objects that decode to the
  same Go value have the same digest, however their keys are ordered and repeated at
  any level, whatever white space and escapes they are written with and however a
  number of the same float is spelled, as long as every number is in the range of a
  float (the texts that are not are digested byte for byte).\<close>

theorem args_digest_order:
  assumes "json_parse raw = Some (JObj ms)" "json_parse raw' = Some (JObj ns)"
    and "json_same num (JObj ms) (JObj ns)"
    and "in_float_range num (JObj ms)" "in_float_range num (JObj ns)"
  shows "ArgsDigest sha num raw = ArgsDigest sha num raw'"
proof -
  have "json_parse [] = None" by code_simp
  then have ne: "raw \<noteq> []" "raw' \<noteq> []" using assms(1,2) by auto
  have "canon num (JObj ms) \<noteq> None" using assms(4) unfolding canon_decodes(1) .
  then have "canonical_args num raw = canonical_args num raw'"
    using ne canon_same [OF assms(3-5)] by (auto simp: canonical_args_def assms(1,2) simp del: canon.simps)
  then show ?thesis by (simp add: ArgsDigest_def)
qed

text \<open>Nested members in another order.\<close>

definition two_keys :: "string \<Rightarrow> string \<Rightarrow> (string \<times> string \<times> json) list" where
  "two_keys a b = [(a, ''true'', JBool True), (b, ''true'', JBool True)]"

definition nested_keys :: "string \<Rightarrow> string \<Rightarrow> (string \<times> string \<times> json) list" where
  "nested_keys a b = [(''n'', json_object (texts (two_keys a b)), JObj (two_keys a b)), (''b'', ''true'', JBool True)]"

lemma true_encodes: "encodes_in D ''true'' (JBool True)"
  using encodes_in_bool [of D True] by (simp add: json_bool_def)

theorem args_digest_order_witness:
  "\<forall>sha num. ArgsDigest sha num (json_object [(''n'', json_object [(''x'', ''true''), (''y'', ''true'')]), (''b'', ''true'')]) =
     ArgsDigest sha num (json_object [(''b'', ''true''), (''n'', json_object [(''y'', ''true''), (''x'', ''true'')])])"
proof (intro allI)
  fix sha :: "string \<Rightarrow> string" and num
  let ?ms = "nested_keys ''x'' ''y''" and ?ns = "rev (nested_keys ''y'' ''x'')"
  have two: "members_in 0 (two_keys ''x'' ''y'')" "members_in 0 (two_keys ''y'' ''x'')"
    by (simp_all add: two_keys_def valid_utf8_ascii true_encodes)
  have "members_in 1 ?ms" "members_in 1 ?ns"
    using encodes_in_object [OF two(1)] encodes_in_object [OF two(2)]
    by (simp_all add: nested_keys_def valid_utf8_ascii true_encodes)
  then have p: "json_parse (json_object (texts ?ms)) = Some (JObj ?ms)"
    "json_parse (json_object (texts ?ns)) = Some (JObj ?ns)"
    using json_parse_in [OF encodes_in_object] by (simp_all add: max_nesting_def)
  have inner: "json_same num (JObj (two_keys ''x'' ''y'')) (JObj (two_keys ''y'' ''x''))"
    by (rule same_obj) (simp add: member_values_def two_keys_def last_of_Cons same_bool)
  have same: "json_same num (JObj ?ms) (JObj ?ns)"
    by (rule same_obj) (simp add: member_values_def nested_keys_def last_of_Cons same_bool inner)
  have "in_float_range num (JObj ?ms)" "in_float_range num (JObj ?ns)"
    by (simp_all add: nested_keys_def two_keys_def in_float_range_def)
  from args_digest_order [OF p same this] show
    "ArgsDigest sha num (json_object [(''n'', json_object [(''x'', ''true''), (''y'', ''true'')]), (''b'', ''true'')]) =
     ArgsDigest sha num (json_object [(''b'', ''true''), (''n'', json_object [(''y'', ''true''), (''x'', ''true'')])])"
    by (simp add: nested_keys_def two_keys_def texts_def)
qed

end
