(* ===== verification/Ws_Frame.thy ===== *)
theory Ws_Frame
  imports Prelude
begin

unbundle bit_operations_syntax

text \<open>
  The frame layer of \<open>internal/wsclient/wsclient.go\<close>: \<open>writeFrame\<close>'s bytes and
  \<open>readFrame\<close>. A socket's input is a list of events, a byte or a read deadline
  expiring; the end of the list is the end of the connection.
\<close>

type_synonym octet = "8 word"

datatype event = RByte octet | RTimeout

subsection \<open>Constants\<close>

definition opContinuation :: octet where "opContinuation = 0x0"
definition opText :: octet where "opText = 0x1"
definition opBinary :: octet where "opBinary = 0x2"
definition opClose :: octet where "opClose = 0x8"
definition opPing :: octet where "opPing = 0x9"
definition opPong :: octet where "opPong = 0xA"

lemmas op_defs = opContinuation_def opText_def opBinary_def opClose_def opPing_def opPong_def

definition MaxMessageBytes :: nat where "MaxMessageBytes = 2 ^ 20"
definition maxControlBytes :: nat where "maxControlBytes = 125"

datatype ws_error =
    TimedOut | Disconnected | ReservedBits | FragmentedControl | OversizedControl
  | ErrMessageTooBig | ErrBinaryFrame | ErrClosedByServer | UnknownOpcode octet | WriteFailed bool

subsection \<open>Writing\<close>

text \<open>Big-endian bytes of a number, and back.\<close>

fun be_bytes :: "nat \<Rightarrow> nat \<Rightarrow> octet list" where
  "be_bytes 0 n = []"
| "be_bytes (Suc k) n = be_bytes k (n div 256) @ [of_nat n]"

definition be_nat :: "octet list \<Rightarrow> nat" where
  "be_nat bs = foldl (\<lambda>a b. a * 256 + unat b) 0 bs"

definition frame_header :: "octet \<Rightarrow> nat \<Rightarrow> octet list" where
  "frame_header opcode n =
     (let b0 = 0x80 OR opcode
      in if n \<le> 125 then [b0, 0x80 OR of_nat n]
         else if n \<le> 0xFFFF then [b0, 0x80 OR 126] @ be_bytes 2 n
         else [b0, 0x80 OR 127] @ be_bytes 8 n)"

definition mask_bytes :: "octet list \<Rightarrow> octet list \<Rightarrow> octet list" where
  "mask_bytes key p = map (\<lambda>i. (p ! i) XOR (key ! (i mod 4))) [0..<length p]"

definition frame_bytes :: "octet \<Rightarrow> octet list \<Rightarrow> octet list \<Rightarrow> octet list" where
  "frame_bytes opcode key payload =
     frame_header opcode (length payload) @ key @ mask_bytes key payload"

subsection \<open>Reading\<close>

text \<open>\<open>io.ReadFull\<close>: what was consumed before an error is gone.\<close>

fun read_full :: "nat \<Rightarrow> event list \<Rightarrow> (ws_error + octet list) \<times> event list" where
  "read_full 0 es = (Inr [], es)"
| "read_full (Suc n) [] = (Inl Disconnected, [])"
| "read_full (Suc n) (RTimeout # es) = (Inl TimedOut, es)"
| "read_full (Suc n) (RByte b # es) =
     (case read_full n es of
        (Inl e, es') \<Rightarrow> (Inl e, es')
      | (Inr bs, es') \<Rightarrow> (Inr (b # bs), es'))"

text \<open>A read followed by a continuation; the error return ends the function.\<close>

definition with_read :: "nat \<Rightarrow> event list \<Rightarrow> (octet list \<Rightarrow> event list \<Rightarrow> (ws_error + 'a) \<times> event list) \<Rightarrow> (ws_error + 'a) \<times> event list" where
  "with_read n es k =
     (case read_full n es of (Inl e, es') \<Rightarrow> (Inl e, es') | (Inr bs, es') \<Rightarrow> k bs es')"

type_synonym frame = "bool \<times> octet \<times> octet list"

definition read_payload :: "bool \<Rightarrow> octet \<Rightarrow> bool \<Rightarrow> nat \<Rightarrow> event list \<Rightarrow> (ws_error + frame) \<times> event list" where
  "read_payload fin opcode masked len es =
     (let control = (opcode AND 0x8 \<noteq> 0)
      in if control \<and> \<not> fin then (Inl FragmentedControl, es)
         else if control \<and> len > maxControlBytes then (Inl OversizedControl, es)
         else if len > MaxMessageBytes then (Inl ErrMessageTooBig, es)
         else with_read (if masked then 4 else 0) es (\<lambda>key es1.
              with_read len es1 (\<lambda>p es2.
                (Inr (fin, opcode, if masked then mask_bytes key p else p), es2))))"

definition readFrame :: "event list \<Rightarrow> (ws_error + frame) \<times> event list" where
  "readFrame es =
     with_read 2 es (\<lambda>h es1.
       let h0 = h ! 0; h1 = h ! 1;
           fin = (h0 AND 0x80 \<noteq> 0); opcode = h0 AND 0x0F;
           masked = (h1 AND 0x80 \<noteq> 0); len = unat (h1 AND 0x7F)
       in if h0 AND 0x70 \<noteq> 0 then (Inl ReservedBits, es1)
          else if len = 126 then with_read 2 es1 (\<lambda>e es2. read_payload fin opcode masked (be_nat e) es2)
          else if len = 127 then with_read 8 es1 (\<lambda>e es2. read_payload fin opcode masked (be_nat e) es2)
          else read_payload fin opcode masked len es1)"

subsection \<open>Facts\<close>

lemma length_be_bytes [simp]: "length (be_bytes k n) = k"
  by (induction k arbitrary: n) simp_all

lemma be_nat_snoc: "be_nat (bs @ [b]) = be_nat bs * 256 + unat b"
  by (simp add: be_nat_def)

lemma be_nat_Nil [simp]: "be_nat [] = 0"
  by (simp add: be_nat_def)

lemma be_nat_be_bytes: "n < 256 ^ k \<Longrightarrow> be_nat (be_bytes k n) = n"
proof (induction k arbitrary: n)
  case (Suc k)
  then have "n div 256 < 256 ^ k" by (simp add: less_mult_imp_div_less mult.commute)
  with Suc.IH have "be_nat (be_bytes k (n div 256)) = n div 256" by blast
  moreover have "unat (of_nat n :: octet) = n mod 256" by (simp add: unat_of_nat)
  ultimately show ?case by (simp add: be_nat_snoc)
qed simp

lemma length_mask_bytes [simp]: "length (mask_bytes m p) = length p"
  by (simp add: mask_bytes_def)

lemma mask_bytes_twice [simp]: "mask_bytes m (mask_bytes m p) = p"
  by (rule nth_equalityI) (simp_all add: mask_bytes_def xor.assoc)

lemma read_full_bytes: "read_full (length bs) (map RByte bs @ es) = (Inr bs, es)"
  by (induction bs) simp_all

lemma with_read_bytes:
  "length bs = n \<Longrightarrow> with_read n (map RByte bs @ es) k = k bs es"
  using read_full_bytes [of bs es] by (auto simp: with_read_def)

lemma read_full_InrD:
  "read_full n es = (Inr bs, es') \<Longrightarrow> length bs = n \<and> es = map RByte bs @ es'"
  by (induction n es arbitrary: bs rule: read_full.induct) (auto split: prod.splits sum.splits)

lemma read_full_shrinks: "read_full n es = (r, es') \<Longrightarrow> length es' \<le> length es"
  by (induction n es arbitrary: r rule: read_full.induct) (fastforce split: prod.splits sum.splits)+

lemma with_read_InrD:
  assumes "with_read n es k = (Inr x, es')"
  obtains bs es1 where "length bs = n" "es = map RByte bs @ es1" "k bs es1 = (Inr x, es')"
  using assms read_full_InrD by (fastforce simp: with_read_def split: prod.splits sum.splits)

lemma read_payload_InrD:
  assumes "read_payload fin opcode masked len es = (Inr (fin', opcode', p), es')"
  shows "fin' = fin \<and> opcode' = opcode \<and> length p = len \<and> len \<le> MaxMessageBytes \<and>
    (opcode AND 0x8 \<noteq> 0 \<longrightarrow> fin \<and> len \<le> maxControlBytes) \<and> length es' \<le> length es"
  using assms
  by (auto simp: read_payload_def Let_def split: if_splits elim!: with_read_InrD)

lemma readFrame_InrD:
  assumes "readFrame es = (Inr (fin, opcode, p), es')"
  shows "length p \<le> MaxMessageBytes" "opcode AND 0x8 \<noteq> 0 \<Longrightarrow> fin \<and> length p \<le> maxControlBytes"
    "length es' < length es"
  using assms
  by (auto simp: readFrame_def Let_def split: if_splits elim!: with_read_InrD
      dest!: read_payload_InrD)

subsection \<open>What is written reads back\<close>

text \<open>A frame header as either side may send it.\<close>

definition flagged :: "bool \<Rightarrow> octet \<Rightarrow> octet" where
  "flagged b x = (if b then 0x80 OR x else x)"

definition raw_frame :: "bool \<Rightarrow> octet \<Rightarrow> octet list option \<Rightarrow> octet list \<Rightarrow> octet list" where
  "raw_frame fin opcode key payload =
     (let n = length payload; m = (key \<noteq> None)
      in [flagged fin opcode] @
         (if n \<le> 125 then [flagged m (of_nat n)]
          else if n \<le> 0xFFFF then flagged m 126 # be_bytes 2 n
          else flagged m 127 # be_bytes 8 n) @
         (case key of None \<Rightarrow> payload | Some k \<Rightarrow> k @ mask_bytes k payload))"

lemma frame_bytes_raw: "frame_bytes opcode key p = raw_frame True opcode (Some key) p"
  by (simp add: frame_bytes_def frame_header_def raw_frame_def flagged_def Let_def)

definition opcodes :: "octet list" where
  "opcodes = [opContinuation, opText, opBinary, opClose, opPing, opPong]"

definition frame_ok :: "bool \<times> octet \<times> octet list option \<times> octet list \<Rightarrow> bool" where
  "frame_ok f \<longleftrightarrow> (case f of (fin, opcode, key, p) \<Rightarrow>
     opcode \<in> set opcodes \<and> length p \<le> MaxMessageBytes \<and>
     (case key of None \<Rightarrow> True | Some k \<Rightarrow> length k = 4) \<and>
     (opcode AND 0x8 \<noteq> 0 \<longrightarrow> fin \<and> length p \<le> maxControlBytes))"

lemma flagged_bits:
  "flagged b x AND 0x80 \<noteq> 0 \<longleftrightarrow> b" if "x AND 0x80 = 0" for x :: octet
  using that by (simp add: flagged_def bit.conj_disj_distrib2)

lemma opcode_bits:
  assumes "opcode \<in> set opcodes"
  shows "flagged b opcode AND 0x0F = opcode" "flagged b opcode AND 0x70 = 0" "opcode AND 0x80 = 0"
  using assms by (auto simp: opcodes_def op_defs flagged_def)

lemma small_bits:
  assumes "n \<le> 127"
  shows "(of_nat n :: octet) AND 0x80 = 0" "unat (flagged b (of_nat n) AND 0x7F) = n"
proof -
  have all: "\<forall>n \<in> set [0..<128]. (of_nat n :: octet) AND 0x80 = 0 \<and>
      unat ((of_nat n :: octet) AND 0x7F) = n \<and> unat ((0x80 OR of_nat n :: octet) AND 0x7F) = n"
    by code_simp
  then have "(of_nat n :: octet) AND 0x80 = 0 \<and>
      unat ((of_nat n :: octet) AND 0x7F) = n \<and> unat ((0x80 OR of_nat n :: octet) AND 0x7F) = n"
    using assms by (simp only: set_upt) auto
  then show "(of_nat n :: octet) AND 0x80 = 0" "unat (flagged b (of_nat n) AND 0x7F) = n"
    by (simp_all add: flagged_def)
qed

lemma read_payload_raw:
  assumes "frame_ok (fin, opcode, key, p)"
  shows "read_payload fin opcode (key \<noteq> None) (length p)
      (map RByte (case key of None \<Rightarrow> p | Some k \<Rightarrow> k @ mask_bytes k p) @ es) = (Inr (fin, opcode, p), es)"
proof (cases key)
  case None
  then show ?thesis using assms
    by (auto simp: read_payload_def frame_ok_def with_read_bytes with_read_bytes [of "[]", simplified])
next
  case (Some k)
  then show ?thesis using assms
    by (auto simp: read_payload_def frame_ok_def with_read_bytes append_assoc [symmetric] simp del: append_assoc)
      (simp_all add: with_read_bytes)
qed

lemma readFrame_header:
  assumes "h0 AND 0x70 = 0"
  shows "readFrame (RByte h0 # RByte h1 # es) =
    (if unat (h1 AND 0x7F) = 126 then
       with_read 2 es (\<lambda>e. read_payload (h0 AND 0x80 \<noteq> 0) (h0 AND 0x0F) (h1 AND 0x80 \<noteq> 0) (be_nat e))
     else if unat (h1 AND 0x7F) = 127 then
       with_read 8 es (\<lambda>e. read_payload (h0 AND 0x80 \<noteq> 0) (h0 AND 0x0F) (h1 AND 0x80 \<noteq> 0) (be_nat e))
     else read_payload (h0 AND 0x80 \<noteq> 0) (h0 AND 0x0F) (h1 AND 0x80 \<noteq> 0) (unat (h1 AND 0x7F)) es)"
proof -
  have "with_read 2 (RByte h0 # RByte h1 # es) k = k [h0, h1] es" for k :: "octet list \<Rightarrow> event list \<Rightarrow> (ws_error + frame) \<times> event list"
    using with_read_bytes [of "[h0, h1]" 2 es k] by simp
  then show ?thesis using assms by (simp add: readFrame_def Let_def)
qed

theorem readFrame_raw:
  assumes "frame_ok (fin, opcode, key, p)"
  shows "readFrame (map RByte (raw_frame fin opcode key p) @ es) = (Inr (fin, opcode, p), es)"
proof -
  have op: "opcode \<in> set opcodes" and len: "length p \<le> MaxMessageBytes"
    using assms by (simp_all add: frame_ok_def)
  let ?m = "key \<noteq> None"
  let ?rest = "case key of None \<Rightarrow> p | Some k \<Rightarrow> k @ mask_bytes k p"
  note pay = read_payload_raw [OF assms, of es]
  have head: "readFrame (map RByte ([flagged fin opcode, flagged ?m (of_nat l)] @ xs) @ es) =
      (if l = 126 then with_read 2 (map RByte xs @ es) (\<lambda>e. read_payload fin opcode ?m (be_nat e))
       else if l = 127 then with_read 8 (map RByte xs @ es) (\<lambda>e. read_payload fin opcode ?m (be_nat e))
       else read_payload fin opcode ?m l (map RByte xs @ es))" if "l \<le> 127" for l xs
    using readFrame_header [OF opcode_bits(2) [OF op], of fin "flagged ?m (of_nat l)" "map RByte xs @ es"]
    unfolding flagged_bits [OF opcode_bits(3) [OF op], of fin] flagged_bits [OF small_bits(1) [OF that], of ?m]
      opcode_bits(1) [OF op] small_bits(2) [OF that]
    by simp
  show ?thesis
  proof (cases "length p \<le> 125")
    case True
    then show ?thesis using head [of "length p" ?rest] pay by (simp add: raw_frame_def)
  next
    case False
    show ?thesis
    proof (cases "length p \<le> 0xFFFF")
      case True
      then have "be_nat (be_bytes 2 (length p)) = length p" by (intro be_nat_be_bytes) simp
      then show ?thesis using head [of 126 "be_bytes 2 (length p) @ ?rest"] pay False True
        by (simp add: raw_frame_def with_read_bytes)
    next
      case long: False
      have "length p < 256 ^ 8" using len by (simp add: MaxMessageBytes_def)
      then have "be_nat (be_bytes 8 (length p)) = length p" by (rule be_nat_be_bytes)
      then show ?thesis using head [of 127 "be_bytes 8 (length p) @ ?rest"] pay False long
        by (simp add: raw_frame_def with_read_bytes)
    qed
  qed
qed

subsection \<open>A codec\<close>

text \<open>
  What a self-delimiting wire format promises: decoding an encoded item followed by
  anything gives the item and leaves what followed.
\<close>

fun decode_run :: "('e list \<Rightarrow> 'r \<times> 'e list) \<Rightarrow> nat \<Rightarrow> 'e list \<Rightarrow> 'r list \<times> 'e list" where
  "decode_run dec 0 es = ([], es)"
| "decode_run dec (Suc n) es =
     (let (r, es1) = dec es; (rs, es2) = decode_run dec n es1 in (r # rs, es2))"

locale frame_codec =
  fixes enc :: "'f \<Rightarrow> 'e list"
    and dec :: "'e list \<Rightarrow> 'r \<times> 'e list"
    and meaning :: "'f \<Rightarrow> 'r"
    and ok :: "'f \<Rightarrow> bool"
  assumes dec_enc: "ok f \<Longrightarrow> dec (enc f @ es) = (meaning f, es)"
begin

lemma run_concat:
  "list_all ok fs \<Longrightarrow> decode_run dec (length fs) (concat (map enc fs) @ es) = (map meaning fs, es)"
  by (induction fs) (simp_all add: dec_enc)

lemma prefix_free:
  assumes "ok f" "ok g" "enc f @ x = enc g @ y"
  shows "meaning f = meaning g" "x = y"
  using dec_enc [OF assms(1), of x] dec_enc [OF assms(2), of y] assms(3) by simp_all

end

definition sent_events :: "bool \<times> octet \<times> octet list option \<times> octet list \<Rightarrow> event list" where
  "sent_events f = (case f of (fin, opcode, key, p) \<Rightarrow> map RByte (raw_frame fin opcode key p))"

definition frame_meaning :: "bool \<times> octet \<times> octet list option \<times> octet list \<Rightarrow> ws_error + frame" where
  "frame_meaning f = (case f of (fin, opcode, key, p) \<Rightarrow> Inr (fin, opcode, p))"

interpretation ws: frame_codec sent_events readFrame frame_meaning frame_ok
  by unfold_locales (auto simp: sent_events_def frame_meaning_def readFrame_raw split: prod.splits)

end
