(* ===== verification/Ws_Client.thy ===== *)
theory Ws_Client
  imports Ws_Frame Config
begin

text \<open>
  The connection layer of \<open>internal/wsclient/wsclient.go\<close>: the dial and its
  handshake, sending frames, \<open>ReadMessage\<close> and \<open>Close\<close>. The random source, the
  socket's writes and the clock are functions of the number of frames written or
  read so far.
\<close>

subsection \<open>The connection\<close>

record conn =
  sent :: "octet list"
  frames_out :: nat
  frames_in :: nat
  last_activity :: int
  conn_closed :: bool

text \<open>
  \<open>fresh_key n\<close>: the masking key of frame \<open>n\<close>, or \<^const>\<open>None\<close> when the random source
  fails; \<open>wire n bs\<close>: how many of the bytes reach the socket, all of them unless a
  write fails, and \<open>write_expired n\<close>: whether that was its deadline; \<open>frame_time n\<close>: the
  clock when frame \<open>n\<close> has been read.
\<close>

record conn_env =
  fresh_key :: "nat \<Rightarrow> octet list option"
  wire :: "nat \<Rightarrow> octet list \<Rightarrow> nat"
  write_expired :: "nat \<Rightarrow> bool"
  frame_time :: "nat \<Rightarrow> int"

definition writeFrame :: "conn_env \<Rightarrow> octet \<Rightarrow> octet list \<Rightarrow> conn \<Rightarrow> bool \<times> conn" where
  "writeFrame w opcode payload c =
     (let c' = c\<lparr>frames_out := Suc (frames_out c)\<rparr>
      in case fresh_key w (frames_out c) of
           None \<Rightarrow> (False, c')
         | Some key \<Rightarrow>
             let bs = frame_bytes opcode key payload; n = wire w (frames_out c) bs
             in (length bs \<le> n, c'\<lparr>sent := sent c @ take n bs\<rparr>))"

definition WriteText :: "conn_env \<Rightarrow> octet list \<Rightarrow> conn \<Rightarrow> bool \<times> conn" where
  "WriteText w p = writeFrame w opText p"

definition WritePing :: "conn_env \<Rightarrow> conn \<Rightarrow> bool \<times> conn" where
  "WritePing w = writeFrame w opPing []"

definition close_payload :: "16 word \<Rightarrow> octet list \<Rightarrow> octet list" where
  "close_payload code reason =
     (let buf = be_bytes 2 (unat code) @ reason
      in if length buf > maxControlBytes then take maxControlBytes buf else buf)"

definition WriteClose :: "conn_env \<Rightarrow> 16 word \<Rightarrow> octet list \<Rightarrow> conn \<Rightarrow> bool \<times> conn" where
  "WriteClose w code reason = writeFrame w opClose (close_payload code reason)"

definition octets :: "string \<Rightarrow> octet list" where
  "octets s = map of_char s"

definition chars :: "octet list \<Rightarrow> string" where
  "chars bs = map (\<lambda>b. char_of (unat b)) bs"

definition Close :: "conn_env \<Rightarrow> conn \<Rightarrow> conn" where
  "Close w c =
     (if conn_closed c then c
      else snd (WriteClose w 1000 (octets ''going away'') (c\<lparr>conn_closed := True\<rparr>)))"

subsection \<open>Reading a message\<close>

definition touch :: "conn_env \<Rightarrow> conn \<Rightarrow> conn" where
  "touch w c = c\<lparr>frames_in := Suc (frames_in c), last_activity := frame_time w (frames_in c)\<rparr>"

function read_loop :: "conn_env \<Rightarrow> octet list \<Rightarrow> conn \<Rightarrow> event list \<Rightarrow> (ws_error + octet list) \<times> conn \<times> event list" where
  "read_loop w msg c es =
     (case readFrame es of
        (Inl e, es') \<Rightarrow> (Inl e, c, es')
      | (Inr (fin, opcode, payload), es') \<Rightarrow>
          let c1 = touch w c
          in if opcode = opPing then
               (case writeFrame w opPong payload c1 of
                  (False, c2) \<Rightarrow> (Inl (WriteFailed (write_expired w (frames_out c1))), c2, es')
                | (True, c2) \<Rightarrow> read_loop w msg c2 es')
             else if opcode = opPong then read_loop w msg c1 es'
             else if opcode = opClose then
               (Inl ErrClosedByServer, snd (writeFrame w opClose payload c1), es')
             else if opcode = opBinary then (Inl ErrBinaryFrame, c1, es')
             else if opcode = opText \<or> opcode = opContinuation then
               (if length msg + length payload > MaxMessageBytes then (Inl ErrMessageTooBig, c1, es')
                else if fin then (Inr (msg @ payload), c1, es')
                else read_loop w (msg @ payload) c1 es')
             else (Inl (UnknownOpcode opcode), c1, es'))"
  by pat_completeness auto
termination
  by (relation "measure (\<lambda>(w, msg, c, es). length es)") (auto dest: readFrame_InrD(3) [OF sym])

declare read_loop.simps [simp del]

definition ReadMessage :: "conn_env \<Rightarrow> conn \<Rightarrow> event list \<Rightarrow> (ws_error + octet list) \<times> conn \<times> event list" where
  "ReadMessage w c es = read_loop w [] c es"

definition IsTimeout :: "ws_error \<Rightarrow> bool" where
  "IsTimeout e \<longleftrightarrow> e = TimedOut \<or> e = WriteFailed True"

subsection \<open>Dialling\<close>

definition wsGUID :: string where "wsGUID = ''258EAFA5-E914-47DA-95CA-5AB0DC85B11C''"

definition AcceptKey :: "(string \<Rightarrow> string) \<Rightarrow> (string \<Rightarrow> string) \<Rightarrow> string \<Rightarrow> string" where
  "AcceptKey sha1 base64 clientKey = base64 (sha1 (clientKey @ wsGUID))"

record dial_options =
  opt_endpoint :: string
  opt_token :: string
  opt_ca_file :: string
  opt_user_agent :: string
  opt_dial_timeout :: int
  opt_handshake_limit :: int

datatype dial_error =
    DialURL | DialScheme string | ErrQueryString | DialCAFile | DialCAEmpty | DialFailed
  | RandFailed | HandshakeWrite | ErrHandshake | ErrUnauthorized nat

record http_response =
  resp_status :: nat
  resp_upgrade :: string
  resp_accept :: string

text \<open>What the outside answers: files, certificates, the TCP and TLS dial, the socket.\<close>

record dial_env =
  dial_url :: url_parser
  dial_read_file :: "string \<Rightarrow> string option"
  has_certs :: "string \<Rightarrow> bool"
  tls_dial :: "string \<Rightarrow> string option \<Rightarrow> int \<Rightarrow> bool"
  rand_key :: "string option"
  sha1 :: "string \<Rightarrow> string"
  base64 :: "string \<Rightarrow> string"
  exchange :: "string \<Rightarrow> (dial_error + http_response)"
  dial_time :: int

definition crlf :: string where "crlf = [CHR 0x0D, CHR 0x0A]"

definition handshake_request :: "url \<Rightarrow> string \<Rightarrow> string \<Rightarrow> string \<Rightarrow> string" where
  "handshake_request u key tok agent =
     ''GET '' @ (if url_escaped_path u = [] then ''/'' else url_escaped_path u) @ '' HTTP/1.1'' @ crlf @
     ''Host: '' @ url_host u @ crlf @
     ''Upgrade: websocket'' @ crlf @
     ''Connection: Upgrade'' @ crlf @
     ''Sec-WebSocket-Key: '' @ key @ crlf @
     ''Sec-WebSocket-Version: 13'' @ crlf @
     ''Authorization: Bearer '' @ tok @ crlf @
     (if agent \<noteq> [] then ''User-Agent: '' @ agent @ crlf else []) @ crlf"

definition check_response :: "dial_env \<Rightarrow> string \<Rightarrow> http_response \<Rightarrow> dial_error option" where
  "check_response w key r =
     (if resp_status r = 401 \<or> resp_status r = 403 then Some (ErrUnauthorized (resp_status r))
      else if resp_status r \<noteq> 101 then Some ErrHandshake
      else if \<not> EqualFold (resp_upgrade r) ''websocket'' then Some ErrHandshake
      else if resp_accept r \<noteq> AcceptKey (sha1 w) (base64 w) key then Some ErrHandshake
      else None)"

definition dial_addr :: "url \<Rightarrow> string" where
  "dial_addr u = (if Contains (url_host u) '':'' then url_host u else url_host u @ '':443'')"

text \<open>The CA file, when set, is read before anything is opened.\<close>

definition dial_roots :: "dial_env \<Rightarrow> string \<Rightarrow> dial_error + string option" where
  "dial_roots w ca =
     (if ca = [] then Inr None
      else (case dial_read_file w ca of
              None \<Rightarrow> Inl DialCAFile
            | Some pem \<Rightarrow> if has_certs w pem then Inr (Some pem) else Inl DialCAEmpty))"

definition new_conn :: "int \<Rightarrow> conn" where
  "new_conn t = \<lparr>sent = [], frames_out = 0, frames_in = 0, last_activity = t, conn_closed = False\<rparr>"

text \<open>The outcome, and the request bytes if any were written.\<close>

definition Dial :: "dial_env \<Rightarrow> dial_options \<Rightarrow> (dial_error + conn) \<times> string option" where
  "Dial w opts =
     (case dial_url w (opt_endpoint opts) of
        None \<Rightarrow> (Inl DialURL, None)
      | Some u \<Rightarrow>
          if url_scheme u \<noteq> ''wss'' then (Inl (DialScheme (url_scheme u)), None)
          else if url_raw_query u \<noteq> [] then (Inl ErrQueryString, None)
          else (case dial_roots w (opt_ca_file opts) of
            Inl e \<Rightarrow> (Inl e, None)
          | Inr roots \<Rightarrow>
              if \<not> tls_dial w (dial_addr u) roots
                     (if opt_dial_timeout opts = 0 then 10 * 10 ^ 9 else opt_dial_timeout opts)
                then (Inl DialFailed, None)
              else (case rand_key w of
                None \<Rightarrow> (Inl RandFailed, None)
              | Some raw \<Rightarrow>
                  let key = base64 w raw;
                      req = handshake_request u key (opt_token opts) (opt_user_agent opts)
                  in (case exchange w req of
                        Inl e \<Rightarrow> (Inl e, Some req)
                      | Inr r \<Rightarrow>
                          (case check_response w key r of
                             Some e \<Rightarrow> (Inl e, Some req)
                           | None \<Rightarrow> (Inr (new_conn (dial_time w)), Some req))))))"

subsection \<open>Facts\<close>

lemma op_distinct [simp]:
  "opPing \<noteq> opPong" "opPing \<noteq> opClose" "opPing \<noteq> opBinary" "opPing \<noteq> opText" "opPing \<noteq> opContinuation"
  "opPong \<noteq> opPing" "opPong \<noteq> opClose" "opPong \<noteq> opBinary" "opPong \<noteq> opText" "opPong \<noteq> opContinuation"
  "opClose \<noteq> opPing" "opClose \<noteq> opPong" "opClose \<noteq> opBinary" "opClose \<noteq> opText" "opClose \<noteq> opContinuation"
  "opBinary \<noteq> opPing" "opBinary \<noteq> opPong" "opBinary \<noteq> opClose" "opBinary \<noteq> opText" "opBinary \<noteq> opContinuation"
  "opText \<noteq> opPing" "opText \<noteq> opPong" "opText \<noteq> opClose" "opText \<noteq> opBinary" "opText \<noteq> opContinuation"
  "opContinuation \<noteq> opPing" "opContinuation \<noteq> opPong" "opContinuation \<noteq> opClose" "opContinuation \<noteq> opBinary"
  "opContinuation \<noteq> opText"
  by (simp_all add: op_defs)

lemma writeFrame_True:
  assumes "writeFrame w op p c = (True, c')"
  obtains key where "fresh_key w (frames_out c) = Some key"
    "c' = c\<lparr>frames_out := Suc (frames_out c), sent := sent c @ frame_bytes op key p\<rparr>"
  using assms by (auto simp: writeFrame_def Let_def split: option.splits)

lemma close_payload_control: "length (close_payload code reason) \<le> maxControlBytes"
  by (simp add: close_payload_def Let_def maxControlBytes_def)

text \<open>One turn of the loop that ends in a message: this frame finished it, or a later one does.\<close>

lemma read_loop_InrD:
  assumes "read_loop w msg c es = (Inr m, c', es')"
  obtains fin op p es1 where "readFrame es = (Inr (fin, op, p), es1)"
    "(m = msg @ p \<and> es' = es1 \<and> length m \<le> MaxMessageBytes \<and> fin \<and> op \<in> {opText, opContinuation}) \<or>
     (\<exists>msg2 c2. read_loop w msg2 c2 es1 = (Inr m, c', es'))"
proof -
  from assms obtain fin op p es1 where r: "readFrame es = (Inr (fin, op, p), es1)"
    by (subst (asm) read_loop.simps) (auto split: prod.splits sum.splits)
  from assms have "(m = msg @ p \<and> es' = es1 \<and> length m \<le> MaxMessageBytes \<and> fin \<and> op \<in> {opText, opContinuation}) \<or>
     (\<exists>msg2 c2. read_loop w msg2 c2 es1 = (Inr m, c', es'))"
    by (subst (asm) read_loop.simps) (auto simp: r Let_def split: if_splits prod.splits bool.splits)
  with r that show thesis by blast
qed

lemma read_loop_result:
  "read_loop w msg c es = (Inr m, c', es') \<Longrightarrow> length m \<le> MaxMessageBytes \<and> length es' < length es"
proof (induction "length es" arbitrary: msg c es rule: less_induct)
  case less
  from less.prems obtain fin op p es1 where r: "readFrame es = (Inr (fin, op, p), es1)"
    "(m = msg @ p \<and> es' = es1 \<and> length m \<le> MaxMessageBytes \<and> fin \<and> op \<in> {opText, opContinuation}) \<or>
     (\<exists>msg2 c2. read_loop w msg2 c2 es1 = (Inr m, c', es'))"
    by (rule read_loop_InrD)
  with less.hyps [OF readFrame_InrD(3) [OF r(1)]] readFrame_InrD(3) [OF r(1)] show ?case
    by (metis less_trans)
qed

end
