(* ===== verification/Ws_Properties.thy ===== *)
theory Ws_Properties
  imports Ws_Client
begin

text \<open>
  The transport: the wire format and its limits, reassembly, what a read deadline
  does in the middle of a message, closing, and the handshake.
\<close>

subsection \<open>Frames\<close>

text \<open>C28. What the client writes is a proper masked frame: for every data opcode or short
  control payload, with any 4-byte key, the frame has its final bit and its mask bit
  set, and a reader gets back the opcode and the payload and nothing of what follows.\<close>

theorem client_frame_roundtrip:
  assumes "opcode \<in> set opcodes" "length key = 4" "length p \<le> MaxMessageBytes"
    and "opcode AND 0x8 \<noteq> 0 \<longrightarrow> length p \<le> maxControlBytes"
  shows "readFrame (map RByte (frame_bytes opcode key p) @ es) = (Inr (True, opcode, p), es) \<and>
    frame_bytes opcode key p ! 0 AND 0x80 \<noteq> 0 \<and> frame_bytes opcode key p ! 1 AND 0x80 \<noteq> 0"
proof -
  have ok: "frame_ok (True, opcode, Some key, p)" using assms by (simp add: frame_ok_def)
  have "frame_bytes opcode key p ! 0 AND 0x80 \<noteq> 0 \<and> frame_bytes opcode key p ! 1 AND 0x80 \<noteq> 0"
    by (simp add: frame_bytes_def frame_header_def Let_def bit.conj_disj_distrib2)
  with ws.dec_enc [OF ok, of es] show ?thesis
    by (simp add: sent_events_def frame_meaning_def frame_bytes_raw)
qed

theorem client_frame_roundtrip_witness:
  "readFrame (map RByte (frame_bytes opText [1, 2, 3, 4] [104, 105])) = (Inr (True, opText, [104, 105]), [])"
  using client_frame_roundtrip [of opText "[1, 2, 3, 4]" "[104, 105]" "[]"]
  by (simp add: opcodes_def MaxMessageBytes_def) (simp add: op_defs)

text \<open>C30. Limits on what is read, whatever bytes arrive: a frame's payload is at most
  1 MiB, a control frame is final and carries at most 125 bytes, and a message handed
  to the session is at most 1 MiB, however many frames it came in; reading one always
  consumes input.\<close>

theorem read_limits:
  "(readFrame es = (Inr (fin, opcode, p), es1) \<longrightarrow>
      length p \<le> MaxMessageBytes \<and> (opcode AND 0x8 \<noteq> 0 \<longrightarrow> fin \<and> length p \<le> maxControlBytes) \<and>
      length es1 < length es) \<and>
   (ReadMessage w c es = (Inr m, c', es') \<longrightarrow> length m \<le> MaxMessageBytes \<and> length es' < length es)"
  using readFrame_InrD [of es fin opcode p es1] read_loop_result [of w "[]" c es m c' es']
  by (auto simp: ReadMessage_def)

theorem read_limits_witness:
  "length (snd (readFrame (map RByte (raw_frame True opPing None [7])))) < 3"
proof -
  have "readFrame (map RByte (raw_frame True opPing None [7]) @ []) = (Inr (True, opPing, [7]), [])"
    by (rule readFrame_raw) (simp add: frame_ok_def opcodes_def MaxMessageBytes_def maxControlBytes_def)
  with read_limits [of "map RByte (raw_frame True opPing None [7])" True opPing "[7]" "[]"]
  show ?thesis by (simp add: raw_frame_def)
qed

subsection \<open>Messages\<close>

type_synonym any_frame = "bool \<times> octet \<times> octet list option \<times> octet list"

definition data_op :: "octet \<Rightarrow> bool" where
  "data_op opcode \<longleftrightarrow> opcode = opText \<or> opcode = opContinuation"

text \<open>A frame before the last of a message: a fragment, a ping or a pong.\<close>

definition inner_frame :: "any_frame \<Rightarrow> bool" where
  "inner_frame f \<longleftrightarrow> frame_ok f \<and>
     (case f of (fin, opcode, key, p) \<Rightarrow> (data_op opcode \<and> \<not> fin) \<or> opcode = opPing \<or> opcode = opPong)"

definition payload_of :: "any_frame \<Rightarrow> octet list" where
  "payload_of f = (case f of (fin, opcode, key, p) \<Rightarrow> if data_op opcode then p else [])"

definition pings_of :: "any_frame list \<Rightarrow> octet list list" where
  "pings_of fs = map (\<lambda>(fin, opcode, key, p). p) (filter (\<lambda>(fin, opcode, key, p). opcode = opPing) fs)"

fun pong_bytes :: "(nat \<Rightarrow> octet list) \<Rightarrow> nat \<Rightarrow> octet list list \<Rightarrow> octet list" where
  "pong_bytes k n [] = []"
| "pong_bytes k n (p # ps) = frame_bytes opPong (k n) p @ pong_bytes k (Suc n) ps"

text \<open>A socket that takes every write, with the keys the random source gives.\<close>

definition healthy :: "conn_env \<Rightarrow> (nat \<Rightarrow> octet list) \<Rightarrow> bool" where
  "healthy w k \<longleftrightarrow> (\<forall>n. fresh_key w n = Some (k n)) \<and> (\<forall>n bs. length bs \<le> wire w n bs)"

lemma writeFrame_healthy:
  "healthy w k \<Longrightarrow> writeFrame w op p c =
     (True, c\<lparr>frames_out := Suc (frames_out c), sent := sent c @ frame_bytes op (k (frames_out c)) p\<rparr>)"
  by (simp add: writeFrame_def healthy_def Let_def)

lemma payload_of_simps:
  "data_op op \<Longrightarrow> payload_of (fin, op, key, p) = p" "\<not> data_op op \<Longrightarrow> payload_of (fin, op, key, p) = []"
  by (simp_all add: payload_of_def)

lemma data_op_simps [simp]: "data_op opText" "data_op opContinuation" "\<not> data_op opPing" "\<not> data_op opPong"
  by (simp_all add: data_op_def)

lemma read_loop_frame:
  "frame_ok (fin, op, key, p) \<Longrightarrow> read_loop w msg c (sent_events (fin, op, key, p) @ es) =
     (let c1 = touch w c
      in if op = opPing then
           (case writeFrame w opPong p c1 of
              (False, c2) \<Rightarrow> (Inl (WriteFailed (write_expired w (frames_out (touch w c)))), c2, es)
            | (True, c2) \<Rightarrow> read_loop w msg c2 es)
         else if op = opPong then read_loop w msg c1 es
         else if op = opClose then (Inl ErrClosedByServer, snd (writeFrame w opClose p c1), es)
         else if op = opBinary then (Inl ErrBinaryFrame, c1, es)
         else if op = opText \<or> op = opContinuation then
           (if length msg + length p > MaxMessageBytes then (Inl ErrMessageTooBig, c1, es)
            else if fin then (Inr (msg @ p), c1, es)
            else read_loop w (msg @ p) c1 es)
         else (Inl (UnknownOpcode op), c1, es))"
  using ws.dec_enc [of "(fin, op, key, p)" es]
  by (subst read_loop.simps) (simp add: frame_meaning_def Let_def)

lemma read_loop_reassembles:
  assumes "healthy w k" "list_all inner_frame fs" "frame_ok (True, op, key, p)" "data_op op"
    and "length msg + length (concat (map payload_of fs)) + length p \<le> MaxMessageBytes"
  shows "\<exists>c'. read_loop w msg c (concat (map sent_events fs) @ sent_events (True, op, key, p) @ es) =
      (Inr (msg @ concat (map payload_of fs) @ p), c', es) \<and>
    sent c' = sent c @ pong_bytes k (frames_out c) (pings_of fs)"
  using assms
proof (induction fs arbitrary: msg c)
  case Nil
  then show ?case
    using read_loop_frame [OF Nil(3), of w msg c es]
    by (auto simp: data_op_def Let_def touch_def pings_of_def)
next
  case (Cons f fs)
  obtain fin opc kk q where f: "f = (fin, opc, kk, q)" by (cases f) auto
  have inner: "list_all inner_frame fs" and "inner_frame (fin, opc, kk, q)"
    using Cons.prems(2) by (simp_all add: f)
  then have ok: "frame_ok (fin, opc, kk, q)" by (simp add: inner_frame_def)
  from Cons.prems(2) consider (data) "data_op opc" "\<not> fin" | (ping) "opc = opPing" | (pong) "opc = opPong"
    by (auto simp: f inner_frame_def)
  then show ?case
  proof cases
    case data
    then have op: "opc \<noteq> opPing" "opc \<noteq> opPong" "opc \<noteq> opClose" "opc \<noteq> opBinary" "opc = opText \<or> opc = opContinuation"
      by (auto simp: data_op_def)
    have "length (msg @ q) + length (concat (map payload_of fs)) + length p \<le> MaxMessageBytes"
      using Cons.prems(5) data(1) by (simp add: f payload_of_simps)
    moreover have "frame_ok (False, opc, kk, q)" using ok data(2) by simp
    from read_loop_frame [OF this, of w] have "read_loop w msg c (sent_events (False, opc, kk, q) @ xs) =
        read_loop w (msg @ q) (touch w c) xs" for xs
      using op Cons.prems(5) data(1) by (simp add: f payload_of_simps Let_def)
    ultimately show ?thesis
      using Cons.IH [OF Cons.prems(1) inner Cons.prems(3,4), of "msg @ q" "touch w c"] data op
      by (simp add: f payload_of_simps pings_of_def touch_def)
  next
    case ping
    have "length msg + length (concat (map payload_of fs)) + length p \<le> MaxMessageBytes"
      using Cons.prems(5) ping by (simp add: f payload_of_simps)
    moreover have "frame_ok (fin, opPing, kk, q)" using ok ping by simp
    from read_loop_frame [OF this, of w] have "read_loop w msg c (sent_events (fin, opPing, kk, q) @ xs) =
        read_loop w msg (snd (writeFrame w opPong q (touch w c))) xs" for xs
      by (simp add: Let_def writeFrame_healthy [OF Cons.prems(1)])
    ultimately show ?thesis
      using Cons.IH [OF Cons.prems(1) inner Cons.prems(3,4),
        of msg "snd (writeFrame w opPong q (touch w c))"] ping
      by (simp add: f payload_of_simps pings_of_def touch_def writeFrame_healthy [OF Cons.prems(1)])
  next
    case pong
    have "length msg + length (concat (map payload_of fs)) + length p \<le> MaxMessageBytes"
      using Cons.prems(5) pong by (simp add: f payload_of_simps)
    moreover have "frame_ok (fin, opPong, kk, q)" using ok pong by simp
    from read_loop_frame [OF this, of w] have "read_loop w msg c (sent_events (fin, opPong, kk, q) @ xs) =
        read_loop w msg (touch w c) xs" for xs
      by (simp add: Let_def)
    ultimately show ?thesis
      using Cons.IH [OF Cons.prems(1) inner Cons.prems(3,4), of msg "touch w c"] pong
      by (simp add: f payload_of_simps pings_of_def touch_def)
  qed
qed

text \<open>C29. Reassembly: a message sent in any number of fragments, with pings and pongs
  anywhere between them, is returned as the concatenation of its fragments when it
  fits in 1 MiB; every ping is answered by one pong with its payload, in order; and
  what follows the message is left unread.\<close>

theorem message_reassembly:
  assumes "healthy w k" "list_all inner_frame fs" "frame_ok (True, op, key, p)" "data_op op"
    and "length (concat (map payload_of fs)) + length p \<le> MaxMessageBytes"
  shows "\<exists>c'. ReadMessage w c (concat (map sent_events fs) @ sent_events (True, op, key, p) @ es) =
      (Inr (concat (map payload_of fs) @ p), c', es) \<and>
    sent c' = sent c @ pong_bytes k (frames_out c) (pings_of fs)"
  using read_loop_reassembles [OF assms(1-4), of "[]" c es] assms(5) by (simp add: ReadMessage_def)

definition good_env :: conn_env where
  "good_env = \<lparr>fresh_key = (\<lambda>_. Some [1, 2, 3, 4]), wire = (\<lambda>_ bs. length bs), write_expired = (\<lambda>_. False), frame_time = int\<rparr>"

lemma good_healthy: "healthy good_env (\<lambda>_. [1, 2, 3, 4])"
  by (simp add: healthy_def good_env_def)

theorem message_reassembly_witness:
  "\<exists>c'. ReadMessage good_env (new_conn 0)
      (sent_events (False, opText, None, [104]) @ sent_events (True, opPing, None, [9]) @
       sent_events (True, opContinuation, None, [105])) = (Inr [104, 105], c', [])"
proof -
  have "list_all inner_frame [(False, opText, None, [104]), (True, opPing, None, [9])]"
    by (simp add: inner_frame_def frame_ok_def opcodes_def MaxMessageBytes_def maxControlBytes_def) (simp add: op_defs)
  moreover have "frame_ok (True, opContinuation, None, [105])"
    by (simp add: frame_ok_def opcodes_def MaxMessageBytes_def) (simp add: op_defs)
  ultimately show ?thesis
    using message_reassembly [OF good_healthy, of "[(False, opText, None, [104]), (True, opPing, None, [9])]"
        opContinuation None "[105]" "new_conn 0" "[]"]
    by (auto simp: payload_of_def MaxMessageBytes_def)
qed

text \<open>C31. A read deadline that expires between two fragments loses the first: the call
  returns the timeout, and the next call, which the session makes when the socket was
  recently active, returns the second fragment alone as if it were the message.\<close>

theorem timeout_splits_message:
  assumes "frame_ok (False, opText, None, a)" "frame_ok (True, opContinuation, None, b)"
  shows "\<exists>c1 c2. ReadMessage w c (sent_events (False, opText, None, a) @ RTimeout #
        sent_events (True, opContinuation, None, b) @ es) =
      (Inl TimedOut, c1, sent_events (True, opContinuation, None, b) @ es) \<and>
    ReadMessage w c1 (sent_events (True, opContinuation, None, b) @ es) = (Inr b, c2, es)"
proof -
  have len: "length a \<le> MaxMessageBytes" "length b \<le> MaxMessageBytes"
    using assms by (simp_all add: frame_ok_def)
  have t: "readFrame (RTimeout # xs) = (Inl TimedOut, xs)" for xs
    by (simp add: readFrame_def with_read_def numeral_2_eq_2)
  have "read_loop w [] c (sent_events (False, opText, None, a) @ RTimeout #
        sent_events (True, opContinuation, None, b) @ es) =
      (Inl TimedOut, touch w c, sent_events (True, opContinuation, None, b) @ es)"
    using len(1) by (simp add: read_loop_frame [OF assms(1)] Let_def) (simp add: read_loop.simps t)
  moreover have "read_loop w [] (touch w c) (sent_events (True, opContinuation, None, b) @ es) =
      (Inr b, touch w (touch w c), es)"
    using len(2) by (simp add: read_loop_frame [OF assms(2)] Let_def)
  ultimately show ?thesis by (auto simp: ReadMessage_def)
qed

theorem timeout_splits_message_witness:
  "\<exists>c1 c2. ReadMessage good_env (new_conn 0) (sent_events (False, opText, None, octets ''head'') @ RTimeout #
        sent_events (True, opContinuation, None, octets ''tail'')) =
      (Inl TimedOut, c1, sent_events (True, opContinuation, None, octets ''tail'')) \<and>
    ReadMessage good_env c1 (sent_events (True, opContinuation, None, octets ''tail'')) =
      (Inr (octets ''tail''), c2, [])"
proof -
  have "frame_ok (False, opText, None, octets ''head'')" "frame_ok (True, opContinuation, None, octets ''tail'')"
    by (simp_all add: frame_ok_def opcodes_def octets_def MaxMessageBytes_def) (simp_all add: op_defs)
  from timeout_splits_message [OF this, of good_env "new_conn 0" "[]"] show ?thesis by simp
qed

subsection \<open>Closing\<close>

text \<open>Closing is idempotent: the first \<open>Close\<close> sends one close frame, with code 1000
  and at most 125 bytes, and every later one does nothing.\<close>

theorem close_idempotent:
  assumes "healthy w k"
  shows "Close w (Close w c) = Close w c \<and>
    (\<not> conn_closed c \<longrightarrow> sent (Close w c) =
       sent c @ frame_bytes opClose (k (frames_out c)) ([0x03, 0xE8] @ octets ''going away'')) \<and>
    (\<forall>code reason. length (close_payload code reason) \<le> maxControlBytes)"
proof (intro conjI impI allI)
  have closed: "conn_closed (Close w c)"
    by (simp add: Close_def WriteClose_def writeFrame_healthy [OF assms])
  show "Close w (Close w c) = Close w c"
    unfolding Close_def [of w "Close w c"] using closed by simp
  have "be_bytes 2 (unat (1000 :: 16 word)) = [0x03, 0xE8]" by code_simp
  then have "close_payload 1000 (octets ''going away'') = [0x03, 0xE8] @ octets ''going away''"
    by (simp add: close_payload_def maxControlBytes_def octets_def)
  then show "sent (Close w c) =
      sent c @ frame_bytes opClose (k (frames_out c)) ([0x03, 0xE8] @ octets ''going away'')"
    if "\<not> conn_closed c"
    using that by (simp add: Close_def WriteClose_def writeFrame_healthy [OF assms])
qed (rule close_payload_control)

theorem close_idempotent_witness: "Close good_env (Close good_env (new_conn 0)) = Close good_env (new_conn 0)"
  using close_idempotent [OF good_healthy] by blast

subsection \<open>The handshake\<close>

text \<open>A request is written exactly when everything before it went well.\<close>

lemma Dial_request:
  "snd (Dial w opts) = Some req \<longleftrightarrow>
     (\<exists>u roots raw. dial_url w (opt_endpoint opts) = Some u \<and> url_scheme u = ''wss'' \<and> url_raw_query u = [] \<and>
        dial_roots w (opt_ca_file opts) = Inr roots \<and>
        tls_dial w (dial_addr u) roots
          (if opt_dial_timeout opts = 0 then 10 * 10 ^ 9 else opt_dial_timeout opts) \<and>
        rand_key w = Some raw \<and>
        req = handshake_request u (base64 w raw) (opt_token opts) (opt_user_agent opts))"
  by (auto simp: Dial_def Let_def split: option.splits sum.splits)

lemma request_token:
  "\<exists>pre post. HasSuffix pre ''Authorization: Bearer '' \<and>
     (\<forall>t. handshake_request u key t agent = pre @ t @ post)"
proof -
  let ?x = "''GET '' @ (if url_escaped_path u = [] then ''/'' else url_escaped_path u) @ '' HTTP/1.1'' @ crlf @
       ''Host: '' @ url_host u @ crlf @ ''Upgrade: websocket'' @ crlf @ ''Connection: Upgrade'' @ crlf @
       ''Sec-WebSocket-Key: '' @ key @ crlf @ ''Sec-WebSocket-Version: 13'' @ crlf"
  let ?post = "crlf @ (if agent \<noteq> [] then ''User-Agent: '' @ agent @ crlf else []) @ crlf"
  have "handshake_request u key t agent = (?x @ ''Authorization: Bearer '') @ t @ ?post" for t
    unfolding handshake_request_def by (simp only: append.assoc)
  then show ?thesis
    by (intro exI [of _ "?x @ ''Authorization: Bearer ''"] exI [of _ ?post] conjI allI HasSuffix_append)
qed

lemma Dial_Inr:
  assumes "fst (Dial w opts) = Inr c"
  shows "\<exists>req r raw. snd (Dial w opts) = Some req \<and> rand_key w = Some raw \<and> exchange w req = Inr r \<and>
    check_response w (base64 w raw) r = None"
  using assms by (auto simp: Dial_def Let_def split: option.splits sum.splits if_splits)

text \<open>C32. The token reaches the wire in one place and only towards an acceptable
  endpoint: whatever the outside answers, a request is written only for a wss URL
  without query string, on a dialled connection, and it is a fixed text around the
  token, which follows \<open>Authorization: Bearer\<close>.\<close>

theorem dial_token_in_header:
  assumes "snd (Dial w opts) = Some req"
  shows "\<exists>u pre post. dial_url w (opt_endpoint opts) = Some u \<and> url_scheme u = ''wss'' \<and> url_raw_query u = [] \<and>
    req = pre @ opt_token opts @ post \<and> HasSuffix pre ''Authorization: Bearer '' \<and>
    (\<forall>t. snd (Dial w (opts\<lparr>opt_token := t\<rparr>)) = Some (pre @ t @ post))"
proof -
  from assms obtain u roots raw where d: "dial_url w (opt_endpoint opts) = Some u" "url_scheme u = ''wss''"
      "url_raw_query u = []" "dial_roots w (opt_ca_file opts) = Inr roots"
      "tls_dial w (dial_addr u) roots
          (if opt_dial_timeout opts = 0 then 10 * 10 ^ 9 else opt_dial_timeout opts)"
      "rand_key w = Some raw" "req = handshake_request u (base64 w raw) (opt_token opts) (opt_user_agent opts)"
    unfolding Dial_request by blast
  obtain pre post where p: "HasSuffix pre ''Authorization: Bearer ''"
      "\<forall>t. handshake_request u (base64 w raw) t (opt_user_agent opts) = pre @ t @ post"
    using request_token by blast
  have "snd (Dial w (opts\<lparr>opt_token := t\<rparr>)) = Some (pre @ t @ post)" for t
    unfolding Dial_request using d p(2) by auto
  with d p show ?thesis by blast
qed

text \<open>A connection results only from a 101 answer that upgrades to websocket with
  the accept value of the key that was sent, and a 401 or 403 answer gives the
  unauthorised error.\<close>

theorem dial_answer:
  assumes "exchange w req = Inr r" "snd (Dial w opts) = Some req"
  shows "(\<forall>c. fst (Dial w opts) = Inr c \<longrightarrow>
      resp_status r = 101 \<and> EqualFold (resp_upgrade r) ''websocket'' \<and>
      (\<exists>raw. rand_key w = Some raw \<and> resp_accept r = AcceptKey (sha1 w) (base64 w) (base64 w raw))) \<and>
    (resp_status r \<in> {401, 403} \<longrightarrow> fst (Dial w opts) = Inl (ErrUnauthorized (resp_status r)))"
proof -
  have "resp_status r = 101 \<and> EqualFold (resp_upgrade r) ''websocket'' \<and>
      (\<exists>raw. rand_key w = Some raw \<and> resp_accept r = AcceptKey (sha1 w) (base64 w) (base64 w raw))"
    if "fst (Dial w opts) = Inr c" for c
  proof -
    from Dial_Inr [OF that] assms obtain raw where "rand_key w = Some raw" "check_response w (base64 w raw) r = None"
      by auto
    then show ?thesis by (auto simp: check_response_def split: if_splits)
  qed
  moreover have "fst (Dial w opts) = Inl (ErrUnauthorized (resp_status r))" if st: "resp_status r \<in> {401, 403}"
  proof -
    from assms(2) obtain u roots raw where d: "dial_url w (opt_endpoint opts) = Some u" "url_scheme u = ''wss''"
        "url_raw_query u = []" "dial_roots w (opt_ca_file opts) = Inr roots"
        "tls_dial w (dial_addr u) roots
          (if opt_dial_timeout opts = 0 then 10 * 10 ^ 9 else opt_dial_timeout opts)"
        "rand_key w = Some raw" "req = handshake_request u (base64 w raw) (opt_token opts) (opt_user_agent opts)"
      unfolding Dial_request by blast
    have "check_response w (base64 w raw) r = Some (ErrUnauthorized (resp_status r))"
      using st by (auto simp: check_response_def)
    then show ?thesis using d assms(1) by (simp add: Dial_def Let_def)
  qed
  ultimately show ?thesis by blast
qed

definition wss_url :: url_parser where
  "wss_url _ = Some \<lparr>url_scheme = ''wss'', url_host = ''c.example'', url_path = ''/ws'', url_escaped_path = ''/ws'',
     url_raw_query = [], url_has_user = False, url_fragment = []\<rparr>"

definition good_dial :: dial_env where
  "good_dial =
     \<lparr>dial_url = wss_url, dial_read_file = (\<lambda>_. None), has_certs = (\<lambda>_. False), tls_dial = (\<lambda>_ _ _. True),
      rand_key = Some ''0123456789abcdef'', sha1 = id, base64 = id,
      exchange = (\<lambda>_. Inr \<lparr>resp_status = 101, resp_upgrade = ''WebSocket'',
        resp_accept = ''0123456789abcdef'' @ wsGUID\<rparr>), dial_time = 0\<rparr>"

definition dial_opts :: dial_options where
  "dial_opts = \<lparr>opt_endpoint = ''wss://c.example/ws'', opt_token = ''bsc_a_b'', opt_ca_file = [],
     opt_user_agent = ''butterstack-connector/1'', opt_dial_timeout = 0, opt_handshake_limit = 0\<rparr>"

lemma good_dial_request: "\<exists>req. snd (Dial good_dial dial_opts) = Some req"
  by (simp add: Dial_request good_dial_def dial_opts_def wss_url_def dial_roots_def)

theorem dial_token_in_header_witness:
  "\<exists>req pre post. snd (Dial good_dial dial_opts) = Some req \<and> req = pre @ ''bsc_a_b'' @ post \<and>
     HasSuffix pre ''Authorization: Bearer ''"
proof -
  obtain req where r: "snd (Dial good_dial dial_opts) = Some req" using good_dial_request by blast
  from dial_token_in_header [OF r] obtain pre post where
    "req = pre @ opt_token dial_opts @ post" "HasSuffix pre ''Authorization: Bearer ''" by blast
  then show ?thesis using r by (auto simp: dial_opts_def)
qed

theorem dial_answer_witness: "\<exists>req r. exchange good_dial req = Inr r \<and> resp_status r = 101"
proof -
  obtain req where r: "snd (Dial good_dial dial_opts) = Some req" using good_dial_request by blast
  have x: "exchange good_dial req = Inr \<lparr>resp_status = 101, resp_upgrade = ''WebSocket'',
        resp_accept = ''0123456789abcdef'' @ wsGUID\<rparr>" by (simp add: good_dial_def)
  have "EqualFold ''WebSocket'' ''websocket''" by code_simp
  then have "fst (Dial good_dial dial_opts) = Inr (new_conn 0)"
    by (simp add: Dial_def good_dial_def dial_opts_def wss_url_def dial_roots_def check_response_def
        AcceptKey_def Let_def)
  with dial_answer [OF x r] x show ?thesis by blast
qed

end
