(* ===== verification/Executor.thy ===== *)
theory Executor
  imports Resolve Go_Json_Encode
begin

text \<open>
  \<open>internal/tools/tools.go\<close>: how an executor reads its validated arguments, what it
  returns, and the interface every tool implements.
\<close>

subsection \<open>Arguments and results\<close>

definition argInt :: "argmap \<Rightarrow> string \<Rightarrow> int \<Rightarrow> int" where
  "argInt args name d = (case args name of Some (VInt i) \<Rightarrow> i | _ \<Rightarrow> d)"

definition argString :: "argmap \<Rightarrow> string \<Rightarrow> string" where
  "argString args name = (case args name of Some (VString s) \<Rightarrow> s | _ \<Rightarrow> [])"

text \<open>\<open>(body, bytes, truncated, err)\<close>: a body's JSON text, or an error's text.\<close>

datatype exec_result = ExecOK string int bool | ExecErr string int bool

definition ErrNotConfigured :: string where
  "ErrNotConfigured = ''tools: tool is not configured''"

definition result_bytes :: "exec_result \<Rightarrow> int" where
  "result_bytes r = (case r of ExecOK t n b \<Rightarrow> n | ExecErr e n b \<Rightarrow> n)"

lemma result_bytes_simps [simp]: "result_bytes (ExecOK t n b) = n" "result_bytes (ExecErr e n b) = n"
  by (simp_all add: result_bytes_def)

text \<open>
  What a verb does outside the daemon, in order: a process that is run (program,
  arguments, environment, time limit) or an HTTP request that is sent (URL,
  \<open>Authorization\<close>, \<open>Accept\<close>).
\<close>

datatype effect = RunProcess string "string list" "string list" int | SendRequest string string string

text \<open>
  The \<open>Executor\<close> interface with what the session relies on: a verb that is not the
  tool's own is an error and does nothing outside, the byte count it reports is
  within the tool's cap, it runs at most one process or sends one request, and a
  body it returns is one line of printable text.
\<close>

locale tool_executor =
  fixes exec :: "string \<Rightarrow> argmap \<Rightarrow> int \<Rightarrow> exec_result \<times> effect list"
    and own :: "string list"
    and cap :: "int \<Rightarrow> int"
  assumes foreign: "v \<notin> set own \<Longrightarrow> \<exists>e. exec v m b = (ExecErr e 0 False, [])"
    and bytes_nonneg: "0 \<le> result_bytes (fst (exec v m b))"
    and bytes_capped: "result_bytes (fst (exec v m b)) \<le> cap b"
    and one_effect: "length (snd (exec v m b)) \<le> 1"
    and body_printable: "fst (exec v m b) = ExecOK t n tr \<Longrightarrow> printable t"
begin

lemma ok_own: "fst (exec v m b) = ExecOK t n tr \<Longrightarrow> v \<in> set own \<and> 0 \<le> n \<and> n \<le> cap b \<and> printable t"
  using foreign [of v m b] bytes_nonneg [of v m b] bytes_capped [of v m b] body_printable by force

lemma effect_own: "x \<in> set (snd (exec v m b)) \<Longrightarrow> v \<in> set own \<and> snd (exec v m b) = [x]"
  using foreign [of v m b] one_effect [of v m b] by (cases "snd (exec v m b)") fastforce+

end

end
