(* ===== verification/Perforce.thy ===== *)
theory Perforce
  imports Executor Config Protocol Complex_Main
begin

text \<open>
  \<open>internal/tools/perforce.go\<close>: the executor that runs the p4 command line. Parameters: the process (its output in the chunks it was
  written in), two environment variables, \<open>ParseFloat\<close>, and the text \<open>Sprint\<close> gives a
  decoded value that is not a string.
\<close>

subsection \<open>The executor\<close>

definition NewPerforce :: "perforce_config \<Rightarrow> string + perforce_config" where
  "NewPerforce c = (if \<not> p4_enabled c then Inl ErrNotConfigured else Inr c)"

subsection \<open>Bounded output\<close>

record capped_buffer =
  cb_buf :: string
  cb_limit :: nat
  cb_overflowed :: bool

definition capped_write :: "string \<Rightarrow> capped_buffer \<Rightarrow> nat \<times> capped_buffer" where
  "capped_write p c =
     (if cb_overflowed c then (length p, c)
      else (let remaining = int (cb_limit c) - int (length (cb_buf c))
            in if int (length p) > remaining then
                 (length p,
                  (if remaining > 0 then c\<lparr>cb_buf := cb_buf c @ take (nat remaining) p\<rparr> else c)
                    \<lparr>cb_overflowed := True\<rparr>)
               else (length p, c\<lparr>cb_buf := cb_buf c @ p\<rparr>)))"

definition empty_buffer :: "nat \<Rightarrow> capped_buffer" where
  "empty_buffer n = \<lparr>cb_buf = [], cb_limit = n, cb_overflowed = False\<rparr>"

definition MaxToolOutputBytes :: nat where "MaxToolOutputBytes = 64 * 2 ^ 20"
definition DefaultDescribeMaxBytes :: int where "DefaultDescribeMaxBytes = 4 * 2 ^ 20"

subsection \<open>Records\<close>

datatype gofloat = Finite rat | PosInf | NegInf | NaN

definition float_at_least :: "gofloat \<Rightarrow> rat \<Rightarrow> bool" where
  "float_at_least f q = (case f of Finite r \<Rightarrow> q \<le> r | PosInf \<Rightarrow> True | NegInf \<Rightarrow> False | NaN \<Rightarrow> False)"

type_synonym p4_record = "(string \<times> json) list"

record p4_world =
  process :: "string \<Rightarrow> string list \<Rightarrow> string list \<Rightarrow> int \<Rightarrow> string list \<times> string \<times> string option"
  getenv :: "string \<Rightarrow> string"
  parse_float :: "string \<Rightarrow> gofloat option"
  sprint :: "json \<Rightarrow> string"

definition str :: "p4_world \<Rightarrow> p4_record \<Rightarrow> string \<Rightarrow> string" where
  "str w m k =
     (case last_of m k of
        Some (JStr s) \<Rightarrow> s
      | Some v \<Rightarrow> sprint w v
      | None \<Rightarrow> [])"

text \<open>A number out of the float range fails the decoding.\<close>

definition as_record :: "p4_world \<Rightarrow> json \<Rightarrow> p4_record option" where
  "as_record w v =
     (if list_all (\<lambda>l. parse_float w l \<noteq> None) (json_numbers v) then any_map v else None)"

text \<open>The decoding loop: it stops at the first value that does not decode.\<close>

fun records_of :: "p4_world \<Rightarrow> json list \<Rightarrow> p4_record list" where
  "records_of w [] = []"
| "records_of w (v # vs) =
     (case as_record w v of None \<Rightarrow> [] | Some m \<Rightarrow> m # records_of w vs)"

definition decode_records :: "p4_world \<Rightarrow> string \<Rightarrow> p4_record list" where
  "decode_records w raw = records_of w (decode_stream raw)"

definition numField :: "p4_world \<Rightarrow> p4_record \<Rightarrow> string \<Rightarrow> gofloat option" where
  "numField w m k =
     (case last_of m k of
        Some (JNum l) \<Rightarrow> parse_float w l
      | Some (JStr s) \<Rightarrow> parse_float w (TrimSpace s)
      | _ \<Rightarrow> None)"

definition firstLine :: "string \<Rightarrow> string" where
  "firstLine s = (case IndexByte s CHR 0x0A of Some i \<Rightarrow> take i s | None \<Rightarrow> s)"

definition p4SeverityFailed :: rat where "p4SeverityFailed = 3"

fun first_error_in :: "p4_world \<Rightarrow> p4_record list \<Rightarrow> string" where
  "first_error_in w [] = []"
| "first_error_in w (m # ms) =
     (let data = TrimSpace (str w m ''data'')
      in if data = [] then first_error_in w ms
         else (case numField w m ''severity'' of
                 Some severity \<Rightarrow>
                   if float_at_least severity p4SeverityFailed then firstLine data
                   else first_error_in w ms
               | None \<Rightarrow> firstLine data))"

definition firstErrorRecord :: "p4_world \<Rightarrow> string \<Rightarrow> string" where
  "firstErrorRecord w stdout = first_error_in w (decode_records w stdout)"

definition failureDetail :: "p4_world \<Rightarrow> string \<Rightarrow> string \<Rightarrow> string \<Rightarrow> string" where
  "failureDetail w stdout stderr runErr =
     (let msg = firstErrorRecord w stdout
      in if msg \<noteq> [] then msg
         else (let msg = TrimSpace stderr
               in if msg \<noteq> [] then firstLine msg else firstLine runErr))"

subsection \<open>Running p4\<close>

definition p4_argv :: "perforce_config \<Rightarrow> string list \<Rightarrow> string list" where
  "p4_argv c args = [''-p'', p4_port c, ''-u'', p4_user c, ''-Mj'', ''-ztag''] @ args"

definition p4_env :: "p4_world \<Rightarrow> perforce_config \<Rightarrow> string list" where
  "p4_env w c =
     [''PATH='' @ getenv w ''PATH'', ''HOME='' @ getenv w ''HOME'', ''P4PORT='' @ p4_port c,
      ''P4USER='' @ p4_user c] @ (if p4_ticket c \<noteq> [] then [''P4PASSWD='' @ p4_ticket c] else [])"

definition capture :: "nat \<Rightarrow> string list \<Rightarrow> capped_buffer" where
  "capture limit chunks = fold (\<lambda>p c. snd (capped_write p c)) chunks (empty_buffer limit)"

text \<open>The outcome and its byte count, and the process that was run for it.\<close>

definition run_p4 :: "p4_world \<Rightarrow> perforce_config \<Rightarrow> string list \<Rightarrow>
    ((string + p4_record list) \<times> int) \<times> effect list" where
  "run_p4 w c args =
     (let (chunks, stderr, exit) = process w (p4_binary c) (p4_argv c args) (p4_env w c) (p4_timeout c);
          started = [RunProcess (p4_binary c) (p4_argv c args) (p4_env w c) (p4_timeout c)];
          stdout = capture MaxToolOutputBytes chunks;
          n = int (length (cb_buf stdout))
      in case exit of
           Some e \<Rightarrow> ((Inl (''perforce: '' @ failureDetail w (cb_buf stdout) stderr e), n), started)
         | None \<Rightarrow>
             if cb_overflowed stdout then
               ((Inl (''perforce: output exceeded the '' @ Itoa (int MaxToolOutputBytes) @ ''-byte tool ceiling''), n),
                started)
             else ((Inr (decode_records w (cb_buf stdout)), n), started))"

subsection \<open>p4.describe\<close>

record described_file =
  df_depot_file :: string
  df_action :: string
  df_type :: string
  df_rev :: string

definition approxJSONBytes :: "described_file \<Rightarrow> int" where
  "approxJSONBytes f =
     64 + int (length (df_depot_file f)) + int (length (df_action f)) + int (length (df_type f)) +
       int (length (df_rev f))"

record describe_record =
  d_change :: int
  d_user :: string
  d_client :: string
  d_time :: string
  d_description :: string
  d_status :: string
  d_files :: "described_file list"
  d_file_count :: int
  d_depot_file_count :: int

record collecting =
  c_count :: int
  c_truncated :: bool
  c_budget :: int
  c_files :: "described_file list"

definition indexed :: "string \<Rightarrow> nat \<Rightarrow> string" where
  "indexed k i = k @ Itoa (int i)"

definition file_at :: "p4_world \<Rightarrow> p4_record \<Rightarrow> nat \<Rightarrow> described_file" where
  "file_at w r i =
     \<lparr>df_depot_file = str w r (indexed ''depotFile'' i), df_action = str w r (indexed ''action'' i),
      df_type = str w r (indexed ''type'' i), df_rev = str w r (indexed ''rev'' i)\<rparr>"

definition collect_file :: "described_file \<Rightarrow> int \<Rightarrow> collecting \<Rightarrow> collecting" where
  "collect_file file maxFiles s0 =
     (let s = s0\<lparr>c_count := c_count s0 + 1\<rparr>
      in if c_truncated s then s
         else if int (length (c_files s)) \<ge> maxFiles then s\<lparr>c_truncated := True\<rparr>
         else (let cost = approxJSONBytes file
               in if cost > c_budget s then s\<lparr>c_truncated := True\<rparr>
                  else s\<lparr>c_budget := c_budget s - cost, c_files := c_files s @ [file]\<rparr>))"

text \<open>The keys the loop has still to look at; each turn uses one up.\<close>

definition keys_from :: "p4_record \<Rightarrow> nat \<Rightarrow> string set" where
  "keys_from r i = {k \<in> fst ` set r. \<exists>j \<ge> i. k = indexed ''depotFile'' j}"

lemma indexed_inj: "indexed k i = indexed k j \<Longrightarrow> i = j"
  by (simp add: indexed_def Itoa_inj) (metis Itoa_inj of_nat_eq_iff)

lemma keys_from_less:
  assumes "str w r (indexed ''depotFile'' i) \<noteq> []"
  shows "card (keys_from r (Suc i)) < card (keys_from r i)"
proof (rule psubset_card_mono)
  show "finite (keys_from r i)" by (simp add: keys_from_def)
  have "indexed ''depotFile'' i \<in> fst ` set r"
    using assms last_of_None_iff [of r "indexed ''depotFile'' i"] by (auto simp: str_def split: option.splits)
  then have "indexed ''depotFile'' i \<in> keys_from r i" by (auto simp: keys_from_def)
  moreover have "indexed ''depotFile'' i \<notin> keys_from r (Suc i)"
    using indexed_inj by (fastforce simp: keys_from_def)
  moreover have "keys_from r (Suc i) \<subseteq> keys_from r i"
    unfolding keys_from_def using Suc_leD by blast
  ultimately show "keys_from r (Suc i) \<subset> keys_from r i" by blast
qed

function describe_loop :: "p4_world \<Rightarrow> p4_record \<Rightarrow> int \<Rightarrow> nat \<Rightarrow> collecting \<Rightarrow> collecting" where
  "describe_loop w r maxFiles i s =
     (if str w r (indexed ''depotFile'' i) = [] then s
      else describe_loop w r maxFiles (Suc i) (collect_file (file_at w r i) maxFiles s))"
  by pat_completeness auto
termination
  by (relation "measure (\<lambda>(w, r, maxFiles, i, s). card (keys_from r i))") (auto intro: keys_from_less)

declare describe_loop.simps [simp del]

definition describeFromRecord :: "p4_world \<Rightarrow> p4_record \<Rightarrow> int \<Rightarrow> int \<Rightarrow> int \<Rightarrow> describe_record \<times> bool" where
  "describeFromRecord w r change maxFiles maxBytes =
     (let budget = (if maxBytes \<le> 0 then DefaultDescribeMaxBytes else maxBytes);
          s = describe_loop w r maxFiles 0 \<lparr>c_count = 0, c_truncated = False, c_budget = budget, c_files = []\<rparr>
      in (\<lparr>d_change = change, d_user = str w r ''user'', d_client = str w r ''client'',
           d_time = str w r ''time'', d_description = str w r ''desc'', d_status = str w r ''status'',
           d_files = c_files s, d_file_count = int (length (c_files s)), d_depot_file_count = c_count s\<rparr>,
          c_truncated s))"

text \<open>A slice that was never appended to is \<open>nil\<close>, which is written \<open>null\<close>.\<close>

definition file_text :: "described_file \<Rightarrow> string" where
  "file_text f = json_object
     [(''depot_file'', quote_json (df_depot_file f)), (''action'', quote_json (df_action f)),
      (''type'', quote_json (df_type f)), (''rev'', quote_json (df_rev f))]"

definition describe_text :: "describe_record \<Rightarrow> string" where
  "describe_text d = json_object
     [(''change'', Itoa (d_change d)), (''user'', quote_json (d_user d)), (''client'', quote_json (d_client d)),
      (''time'', quote_json (d_time d)), (''description'', quote_json (d_description d)),
      (''status'', quote_json (d_status d)),
      (''files'', if d_files d = [] then ''null'' else json_array (map file_text (d_files d))),
      (''file_count'', Itoa (d_file_count d)), (''depot_file_count'', Itoa (d_depot_file_count d))]"

definition describe_args :: "int \<Rightarrow> string list" where
  "describe_args change = [''describe'', ''-s'', Itoa change]"

definition describe :: "p4_world \<Rightarrow> perforce_config \<Rightarrow> int \<Rightarrow> int \<Rightarrow> int \<Rightarrow> exec_result \<times> effect list" where
  "describe w c change maxFiles maxBytes =
     (case run_p4 w c (describe_args change) of
        ((Inl e, n), fx) \<Rightarrow> (ExecErr e n False, fx)
      | ((Inr [], n), fx) \<Rightarrow> (ExecErr (''perforce: changelist '' @ Itoa change @ '' not found'') n False, fx)
      | ((Inr (r # rs), n), fx) \<Rightarrow>
          let (out, truncated) = describeFromRecord w r change maxFiles maxBytes
          in (ExecOK (describe_text out) n truncated, fx))"

subsection \<open>p4.changes\<close>

record change_summary =
  cs_change :: int
  cs_user :: string
  cs_time :: string
  cs_description :: string

text \<open>
  \<open>ParseInt\<close> with its error ignored: zero for text that is no number, and the
  nearest bound for a number out of range.
\<close>

definition ParseInt_value :: "string \<Rightarrow> int" where
  "ParseInt_value s =
     (case ParseInt s of
        Some i \<Rightarrow> i
      | None \<Rightarrow>
          let t = (case s of c # r \<Rightarrow> if c = CHR ''-'' \<or> c = CHR ''+'' then r else s | [] \<Rightarrow> [])
          in if parse_digits t = None then 0
             else if HasPrefix s ''-'' then int64_min else int64_max)"

definition summary_of :: "p4_world \<Rightarrow> p4_record \<Rightarrow> change_summary" where
  "summary_of w r =
     \<lparr>cs_change = ParseInt_value (str w r ''change''), cs_user = str w r ''user'',
      cs_time = str w r ''time'', cs_description = str w r ''desc''\<rparr>"

definition summary_text :: "change_summary \<Rightarrow> string" where
  "summary_text s = json_object
     [(''change'', Itoa (cs_change s)), (''user'', quote_json (cs_user s)),
      (''time'', quote_json (cs_time s)), (''description'', quote_json (cs_description s))]"

definition changes_args :: "string \<Rightarrow> int \<Rightarrow> string list" where
  "changes_args path mx = [''changes'', ''-m'', Itoa mx, path]"

definition changes :: "p4_world \<Rightarrow> perforce_config \<Rightarrow> string \<Rightarrow> int \<Rightarrow> int \<Rightarrow> exec_result \<times> effect list" where
  "changes w c path mx maxBytes =
     (case run_p4 w c (changes_args path mx) of
        ((Inl e, n), fx) \<Rightarrow> (ExecErr e n False, fx)
      | ((Inr recs, n), fx) \<Rightarrow>
          (ExecOK (json_array (map (\<lambda>r. summary_text (summary_of w r)) recs)) n False, fx))"

subsection \<open>Dispatch\<close>

definition Perforce_Execute :: "p4_world \<Rightarrow> perforce_config \<Rightarrow> string \<Rightarrow> argmap \<Rightarrow> int \<Rightarrow>
    exec_result \<times> effect list" where
  "Perforce_Execute w c v args maxBytes =
     (if v = ''p4.describe'' then
        describe w c (argInt args ''change'' 0) (argInt args ''max_files'' 200) maxBytes
      else if v = ''p4.changes'' then
        changes w c (argString args ''path'') (argInt args ''max'' 25) maxBytes
      else (ExecErr (''perforce: no executor for '' @ v) 0 False, []))"

subsection \<open>The bounded buffer\<close>

text \<open>
  What a bounded writer promises: every write reports all its bytes taken, the
  content is what was written cut at the bound, and overflow is remembered.
\<close>

locale bounded_writer =
  fixes put :: "string \<Rightarrow> 'b \<Rightarrow> nat \<times> 'b"
    and content :: "'b \<Rightarrow> string"
    and bound :: "'b \<Rightarrow> nat"
    and over :: "'b \<Rightarrow> bool"
    and inv :: "'b \<Rightarrow> bool"
  assumes takes_all: "fst (put p b) = length p"
    and put_content: "inv b \<Longrightarrow> content (snd (put p b)) = take (bound b) (content b @ p)"
    and put_bound: "inv b \<Longrightarrow> bound (snd (put p b)) = bound b"
    and put_over: "inv b \<Longrightarrow> over (snd (put p b)) \<longleftrightarrow> over b \<or> length (content b @ p) > bound b"
    and put_inv: "inv b \<Longrightarrow> inv (snd (put p b))"
    and inv_fits: "inv b \<Longrightarrow> length (content b) \<le> bound b"
    and inv_full: "inv b \<Longrightarrow> over b \<Longrightarrow> length (content b) = bound b"
begin

lemma fold_put:
  assumes "inv b"
  shows "inv (fold (\<lambda>p b. snd (put p b)) ps b) \<and>
    bound (fold (\<lambda>p b. snd (put p b)) ps b) = bound b \<and>
    content (fold (\<lambda>p b. snd (put p b)) ps b) = take (bound b) (content b @ concat ps) \<and>
    (over (fold (\<lambda>p b. snd (put p b)) ps b) \<longleftrightarrow> over b \<or> length (content b @ concat ps) > bound b)"
  using assms
proof (induction ps arbitrary: b)
  case Nil
  then show ?case using inv_fits [OF Nil] by simp
next
  case (Cons p ps)
  note i = put_inv [OF Cons.prems, of p]
  have "take (bound b) (take (bound b) (content b @ p) @ concat ps) = take (bound b) (content b @ p @ concat ps)"
    by (cases "bound b \<le> length (content b @ p)") (auto simp: min_def take_append)
  moreover have "over b \<or> length (content b @ p) > bound b \<or>
      length (take (bound b) (content b @ p) @ concat ps) > bound b \<longleftrightarrow>
      over b \<or> length (content b @ p @ concat ps) > bound b"
    by (auto simp: min_def)
  ultimately show ?case
    using Cons.IH [OF i] Cons.prems
    by (simp add: put_bound put_content put_over)
qed

end

definition cb_inv :: "capped_buffer \<Rightarrow> bool" where
  "cb_inv b \<longleftrightarrow> length (cb_buf b) \<le> cb_limit b \<and> (cb_overflowed b \<longrightarrow> length (cb_buf b) = cb_limit b)"

interpretation capped: bounded_writer capped_write cb_buf cb_limit cb_overflowed cb_inv
  by unfold_locales (auto simp: capped_write_def cb_inv_def Let_def nat_diff_distrib)

lemma capture_eq:
  "cb_buf (capture n ps) = take n (concat ps)" "cb_overflowed (capture n ps) \<longleftrightarrow> n < length (concat ps)"
  using capped.fold_put [of "empty_buffer n" ps]
  by (simp_all add: capture_def cb_inv_def empty_buffer_def)

subsection \<open>The file list\<close>

text \<open>How many files the record lists: the first index with no depot file.\<close>

definition files_listed :: "p4_world \<Rightarrow> p4_record \<Rightarrow> nat \<Rightarrow> bool" where
  "files_listed w r n \<longleftrightarrow>
     str w r (indexed ''depotFile'' n) = [] \<and> (\<forall>i < n. str w r (indexed ''depotFile'' i) \<noteq> [])"

definition total_cost :: "described_file list \<Rightarrow> int" where
  "total_cost fs = sum_list (map approxJSONBytes fs)"

text \<open>
  The loop's invariant: the files kept are the first \<open>k\<close> of the \<open>i\<close> seen, their cost is
  what the budget has lost, and collecting stopped only for one of the two bounds.
\<close>

definition collecting_ok :: "p4_world \<Rightarrow> p4_record \<Rightarrow> int \<Rightarrow> int \<Rightarrow> nat \<Rightarrow> collecting \<Rightarrow> bool" where
  "collecting_ok w r maxFiles budget i s \<longleftrightarrow>
     (let k = length (c_files s)
      in c_count s = int i \<and> k \<le> i \<and> c_files s = map (file_at w r) [0..<k] \<and>
         c_budget s = budget - total_cost (c_files s) \<and> 0 \<le> c_budget s \<and>
         int k \<le> max 0 maxFiles \<and>
         (c_truncated s \<longleftrightarrow> k < i) \<and>
         (c_truncated s \<longrightarrow> maxFiles \<le> int k \<or> c_budget s < approxJSONBytes (file_at w r k)))"

lemma collect_file_ok:
  assumes "collecting_ok w r mf b i s"
  shows "collecting_ok w r mf b (Suc i) (collect_file (file_at w r i) mf s)"
proof -
  define k where "k = length (c_files s)"
  have s: "c_count s = int i" "k \<le> i" "c_files s = map (file_at w r) [0..<k]"
    "c_budget s = b - total_cost (c_files s)" "0 \<le> c_budget s" "int k \<le> max 0 mf"
    "c_truncated s \<longleftrightarrow> k < i" "c_truncated s \<longrightarrow> mf \<le> int k \<or> c_budget s < approxJSONBytes (file_at w r k)"
    using assms unfolding collecting_ok_def Let_def k_def by blast+
  show ?thesis
  proof (cases "c_truncated s")
    case True
    then show ?thesis using s
      by (simp add: collect_file_def collecting_ok_def Let_def flip: k_def)
  next
    case False
    then have "k = i" using s(2,7) by simp
    have "map (file_at w r) [0..<Suc i] = c_files s @ [file_at w r i]"
      using s(3) \<open>k = i\<close> by simp
    then show ?thesis using s False \<open>k = i\<close>
      by (auto simp: collect_file_def collecting_ok_def Let_def total_cost_def simp flip: k_def)
  qed
qed

lemma describe_loop_ok:
  assumes "collecting_ok w r mf b i s" "\<forall>j < i. str w r (indexed ''depotFile'' j) \<noteq> []"
  shows "\<exists>n. files_listed w r n \<and> collecting_ok w r mf b n (describe_loop w r mf i s)"
  using assms
proof (induction w r mf i s rule: describe_loop.induct)
  case (1 w r mf i s)
  show ?case
  proof (cases "str w r (indexed ''depotFile'' i) = []")
    case True
    then show ?thesis using 1(2,3) by (subst describe_loop.simps) (auto simp: files_listed_def)
  next
    case False
    then have "\<forall>j < Suc i. str w r (indexed ''depotFile'' j) \<noteq> []" using 1(3) by (auto simp: less_Suc_eq)
    from 1(1) [OF False collect_file_ok [OF 1(2)] this] False show ?thesis
      by (subst describe_loop.simps) simp
  qed
qed

lemma files_listed_unique: "files_listed w r m \<Longrightarrow> files_listed w r n \<Longrightarrow> m = n"
  unfolding files_listed_def by (metis linorder_neqE_nat)

subsection \<open>As an executor\<close>

lemma run_p4_bytes: "run_p4 w c args = ((r, n), fx) \<Longrightarrow> 0 \<le> n \<and> n \<le> int MaxToolOutputBytes"
  by (auto simp: run_p4_def Let_def capture_eq split: prod.splits option.splits if_splits)

lemma run_p4_effect:
  "snd (run_p4 w c args) = [RunProcess (p4_binary c) (p4_argv c args) (p4_env w c) (p4_timeout c)]"
  by (simp add: run_p4_def Let_def split: prod.split option.split)

lemma describe_effect: "snd (describe w c ch mf mb) = snd (run_p4 w c (describe_args ch))"
  by (simp add: describe_def Let_def split: prod.split sum.split list.split)

lemma changes_effect: "snd (changes w c pa mx mb) = snd (run_p4 w c (changes_args pa mx))"
  by (simp add: changes_def split: prod.split sum.split)

lemma Perforce_bytes: "result_bytes (fst (Perforce_Execute w c v m b)) \<in> {0..int MaxToolOutputBytes}"
  by (auto simp: Perforce_Execute_def describe_def changes_def Let_def
      split: prod.splits sum.splits list.splits dest: run_p4_bytes)

lemma printable_file: "printable (file_text f)"
  unfolding file_text_def by (rule printable_json_object) (simp add: printable_quote_json)

lemma printable_describe: "printable (describe_text d)"
proof -
  have "printable (json_array (map file_text fs))" for fs
    by (rule printable_json_array) (simp add: list_all_iff printable_file)
  then show ?thesis unfolding describe_text_def
    by (intro printable_json_object) (simp add: printable_texts printable_Cons)
qed

lemma printable_summaries: "printable (json_array (map (\<lambda>r. summary_text (summary_of w r)) recs))"
proof -
  have "printable (summary_text x)" for x
    unfolding summary_text_def by (rule printable_json_object) (simp add: printable_texts)
  then show ?thesis by (intro printable_json_array) (simp add: list_all_iff)
qed

lemma Perforce_printable: "fst (Perforce_Execute w c v m b) = ExecOK t n tr \<Longrightarrow> printable t"
  by (auto simp: Perforce_Execute_def describe_def changes_def Let_def printable_describe printable_summaries
      split: prod.splits sum.splits list.splits if_splits)

interpretation p4: tool_executor "Perforce_Execute w c" "[''p4.describe'', ''p4.changes'']"
    "\<lambda>_. int MaxToolOutputBytes" for w c
proof
  show "0 \<le> result_bytes (fst (Perforce_Execute w c v m b))"
    "result_bytes (fst (Perforce_Execute w c v m b)) \<le> int MaxToolOutputBytes" for v m b
    using Perforce_bytes [of w c v m b] by auto
  show "\<exists>e. Perforce_Execute w c v m b = (ExecErr e 0 False, [])" if "v \<notin> set [''p4.describe'', ''p4.changes'']" for v m b
    using that by (simp add: Perforce_Execute_def)
  show "length (snd (Perforce_Execute w c v m b)) \<le> 1" for v m b
    by (simp add: Perforce_Execute_def describe_effect changes_effect run_p4_effect)
  show "printable t" if "fst (Perforce_Execute w c v m b) = ExecOK t n tr" for v m b t n tr
    using Perforce_printable [OF that] .
qed

end
