(* ===== verification/Perforce_Properties.thy ===== *)
theory Perforce_Properties
  imports Perforce Argument_Properties
begin

text \<open>
  The Perforce executor: what a describe returns under its two bounds, the memory
  ceiling, exactly which command line a validated command can run, and which text a
  failure is reported with.
\<close>

text \<open>C33. A describe record is a bounded prefix of the changelist: it lists the first
  \<open>k\<close> of the changelist's \<open>n\<close> files, in order, each with its action, type and revision;
  it reports both counts; it lists no more than \<open>max_files\<close> and its estimated size fits
  the budget; it is marked truncated exactly when files are missing, and then because
  one of the two bounds leaves no room for the next file.\<close>

theorem describe_bounded_prefix:
  "\<exists>n k. files_listed w r n \<and> k \<le> n \<and>
     d_files (fst (describeFromRecord w r change mf mb)) = map (file_at w r) [0..<k] \<and>
     d_file_count (fst (describeFromRecord w r change mf mb)) = int k \<and>
     d_depot_file_count (fst (describeFromRecord w r change mf mb)) = int n \<and>
     int k \<le> max 0 mf \<and>
     total_cost (map (file_at w r) [0..<k]) \<le> (if mb \<le> 0 then DefaultDescribeMaxBytes else mb) \<and>
     (snd (describeFromRecord w r change mf mb) \<longleftrightarrow> k < n) \<and>
     (k = n \<or> mf \<le> int k \<or>
        (if mb \<le> 0 then DefaultDescribeMaxBytes else mb) < total_cost (map (file_at w r) [0..<Suc k]))"
proof -
  define b where "b = (if mb \<le> 0 then DefaultDescribeMaxBytes else mb)"
  let ?s0 = "\<lparr>c_count = 0, c_truncated = False, c_budget = b, c_files = []\<rparr>"
  have "0 \<le> b" by (simp add: b_def DefaultDescribeMaxBytes_def)
  then have "collecting_ok w r mf b 0 ?s0" by (simp add: collecting_ok_def Let_def total_cost_def)
  from describe_loop_ok [OF this] obtain n where n: "files_listed w r n"
      "collecting_ok w r mf b n (describe_loop w r mf 0 ?s0)" by auto
  let ?s = "describe_loop w r mf 0 ?s0"
  define k where "k = length (c_files ?s)"
  have s: "c_count ?s = int n" "k \<le> n" "c_files ?s = map (file_at w r) [0..<k]"
    "c_budget ?s = b - total_cost (c_files ?s)" "0 \<le> c_budget ?s" "int k \<le> max 0 mf"
    "c_truncated ?s \<longleftrightarrow> k < n" "c_truncated ?s \<longrightarrow> mf \<le> int k \<or> c_budget ?s < approxJSONBytes (file_at w r k)"
    using n(2) unfolding collecting_ok_def Let_def k_def by blast+
  have cost: "total_cost (map (file_at w r) [0..<Suc k]) =
      total_cost (map (file_at w r) [0..<k]) + approxJSONBytes (file_at w r k)"
    by (simp add: total_cost_def)
  have d: "describeFromRecord w r change mf mb =
      (\<lparr>d_change = change, d_user = str w r ''user'', d_client = str w r ''client'',
           d_time = str w r ''time'', d_description = str w r ''desc'', d_status = str w r ''status'',
           d_files = c_files ?s, d_file_count = int k, d_depot_file_count = c_count ?s\<rparr>, c_truncated ?s)"
    by (simp add: describeFromRecord_def Let_def b_def k_def)
  show ?thesis
    unfolding d b_def [symmetric] using n(1) s cost
    by (intro exI [of _ n] exI [of _ k]) auto
qed

text \<open>C40. The budget is an estimate in both directions: a file record whose strings
  need no escaping takes at least 15 bytes less in the response than it was charged,
  comma included; but one whose depot path holds ampersands, which JSON writes in six
  bytes each, takes more than it was charged.\<close>

definition plain :: "string \<Rightarrow> bool" where
  "plain s \<longleftrightarrow> list_all (\<lambda>c. 0x20 \<le> byte c \<and> byte c < 0x80 \<and>
     c \<notin> {CHR 0x22, CHR 0x5C, CHR ''<'', CHR ''>'', CHR ''&''}) s"

lemma ascii_escape_plain:
  assumes "0x20 \<le> byte c" "c \<notin> {CHR 0x22, CHR 0x5C, CHR ''<'', CHR ''>'', CHR ''&''}"
  shows "ascii_escape c = [c]"
proof -
  have "c \<noteq> CHR 0x08" "c \<noteq> CHR 0x0C" "c \<noteq> CHR 0x0A" "c \<noteq> CHR 0x0D" "c \<noteq> CHR 0x09"
    using assms(1) by (intro notI, simp)+
  then show ?thesis using assms unfolding ascii_escape_def by simp
qed

lemma quote_body_plain: "plain s \<Longrightarrow> quote_body s = s"
proof (induction s)
  case (Cons c s)
  then have c: "0x20 \<le> byte c" "byte c < 0x80" "c \<notin> {CHR 0x22, CHR 0x5C, CHR ''<'', CHR ''>'', CHR ''&''}"
    and s: "quote_body s = s"
    by (simp_all add: plain_def)
  show ?case by (subst quote_body.simps) (simp add: c(2) s ascii_escape_plain [OF c(1,3)])
qed (subst quote_body.simps, simp)

lemma quote_plain: "plain s \<Longrightarrow> length (quote_json s) = length s + 2"
  by (simp add: quote_json_def quote_body_plain)

lemma key_lengths:
  "length (quote_json ''depot_file'') = 12" "length (quote_json ''action'') = 8"
  "length (quote_json ''type'') = 6" "length (quote_json ''rev'') = 5"
  by (subst quote_plain; simp add: plain_def)+

lemma file_text_length:
  "length (file_text f) = 40 + length (quote_json (df_depot_file f)) + length (quote_json (df_action f)) +
     length (quote_json (df_type f)) + length (quote_json (df_rev f))"
  by (simp add: file_text_def json_object_def key_lengths)

theorem approx_bytes:
  "(\<forall>f. plain (df_depot_file f) \<and> plain (df_action f) \<and> plain (df_type f) \<and> plain (df_rev f) \<longrightarrow>
      int (length (file_text f)) + 1 + 15 = approxJSONBytes f) \<and>
   approxJSONBytes \<lparr>df_depot_file = ''//d/R&D&Q&A&Z'', df_action = ''edit'', df_type = ''text'', df_rev = ''1''\<rparr> <
     int (length (file_text \<lparr>df_depot_file = ''//d/R&D&Q&A&Z'', df_action = ''edit'', df_type = ''text'', df_rev = ''1''\<rparr>))"
proof
  show "\<forall>f. plain (df_depot_file f) \<and> plain (df_action f) \<and> plain (df_type f) \<and> plain (df_rev f) \<longrightarrow>
      int (length (file_text f)) + 1 + 15 = approxJSONBytes f"
    by (auto simp: file_text_length quote_plain approxJSONBytes_def)
  have "length (quote_json ''//d/R&D&Q&A&Z'') = 35" "length (quote_json ''edit'') = 6"
    "length (quote_json ''text'') = 6" "length (quote_json ''1'') = 3" by code_simp+
  then show "approxJSONBytes \<lparr>df_depot_file = ''//d/R&D&Q&A&Z'', df_action = ''edit'', df_type = ''text'', df_rev = ''1''\<rparr> <
     int (length (file_text \<lparr>df_depot_file = ''//d/R&D&Q&A&Z'', df_action = ''edit'', df_type = ''text'', df_rev = ''1''\<rparr>))"
    by (simp add: file_text_length approxJSONBytes_def)
qed

definition plain_file :: described_file where
  "plain_file = \<lparr>df_depot_file = ''//d/a'', df_action = ''edit'', df_type = ''text'', df_rev = ''1''\<rparr>"

theorem approx_bytes_witness: "int (length (file_text plain_file)) + 16 = approxJSONBytes plain_file"
proof -
  have "plain ''//d/a'' \<and> plain ''edit'' \<and> plain ''text'' \<and> plain ''1''" by (simp add: plain_def)
  then have "int (length (file_text plain_file)) + 1 + 15 = approxJSONBytes plain_file"
    using approx_bytes by (simp add: plain_file_def)
  then show ?thesis by simp
qed

text \<open>C34. The memory ceiling: however the process splits its output into writes, the
  daemon holds exactly the first \<open>n\<close> bytes of it, knows whether there was more, and
  reports every write as taken, so the process is never stopped by a short write.\<close>

theorem capped_output:
  "cb_buf (capture n ps) = take n (concat ps) \<and>
   (cb_overflowed (capture n ps) \<longleftrightarrow> n < length (concat ps)) \<and>
   fst (capped_write p c) = length p"
  using capture_eq capped.takes_all by simp

subsection \<open>The command line\<close>

text \<open>Only running p4 looks at the process.\<close>

lemma str_process [simp]: "str (w\<lparr>process := f\<rparr>) = str w"
  by (intro ext) (simp add: str_def split: option.split json.split)

lemma file_at_process [simp]: "file_at (w\<lparr>process := f\<rparr>) = file_at w"
  by (intro ext) (simp add: file_at_def)

lemma numField_process [simp]: "numField (w\<lparr>process := f\<rparr>) = numField w"
  by (intro ext) (simp add: numField_def split: option.split json.split)

lemma summary_process [simp]: "summary_of (w\<lparr>process := f\<rparr>) = summary_of w"
  by (intro ext) (simp add: summary_of_def)

lemma loop_process [simp]: "describe_loop (w\<lparr>process := f\<rparr>) r mf i s = describe_loop w r mf i s"
proof (induction w r mf i s rule: describe_loop.induct)
  case (1 w r mf i s)
  then show ?case by (subst (1 2) describe_loop.simps) simp
qed

lemma run_p4_local:
  assumes "f (p4_binary c) (p4_argv c args) (p4_env w c) (p4_timeout c) =
      process w (p4_binary c) (p4_argv c args) (p4_env w c) (p4_timeout c)"
  shows "run_p4 (w\<lparr>process := f\<rparr>) c args = run_p4 w c args"
proof -
  have rec: "as_record (w\<lparr>process := f\<rparr>) = as_record w" by (intro ext) (simp add: as_record_def)
  have recs: "records_of (w\<lparr>process := f\<rparr>) vs = records_of w vs" for vs
    by (induction vs) (simp_all add: rec split: option.split)
  have err: "first_error_in (w\<lparr>process := f\<rparr>) ms = first_error_in w ms" for ms
    by (induction ms) (simp_all add: Let_def split: option.split)
  have "failureDetail (w\<lparr>process := f\<rparr>) = failureDetail w"
    by (intro ext) (simp add: failureDetail_def firstErrorRecord_def decode_records_def recs err)
  moreover have "p4_env (w\<lparr>process := f\<rparr>) c = p4_env w c" by (simp add: p4_env_def)
  moreover have "decode_records (w\<lparr>process := f\<rparr>) = decode_records w"
    by (intro ext) (simp add: decode_records_def recs)
  moreover have "process (w\<lparr>process := f\<rparr>) = f" by simp
  ultimately show ?thesis using assms by (simp only: run_p4_def)
qed

lemma describe_local:
  assumes "run_p4 (w\<lparr>process := f\<rparr>) c (describe_args ch) = run_p4 w c (describe_args ch)"
  shows "describe (w\<lparr>process := f\<rparr>) c ch mf mb = describe w c ch mf mb"
proof -
  have "describeFromRecord (w\<lparr>process := f\<rparr>) = describeFromRecord w"
    by (intro ext) (simp add: describeFromRecord_def)
  then show ?thesis by (simp only: describe_def assms)
qed

lemma changes_local:
  assumes "run_p4 (w\<lparr>process := f\<rparr>) c (changes_args pa mx) = run_p4 w c (changes_args pa mx)"
  shows "changes (w\<lparr>process := f\<rparr>) c pa mx mb = changes w c pa mx mb"
  by (simp only: changes_def assms summary_process)

lemma perforce_verbs_live:
  assumes "v \<in> set Vocabulary" "compiled v" "verb_tool v = ''perforce''"
  shows "v = describe_verb \<or> v = changes_verb"
proof -
  have "filter (\<lambda>v. compiled v \<and> verb_tool v = ''perforce'') Vocabulary = [describe_verb, changes_verb]"
    by (simp add: table_defs)
  moreover have "v \<in> set (filter (\<lambda>v. compiled v \<and> verb_tool v = ''perforce'') Vocabulary)"
    using assms by simp
  ultimately show ?thesis by simp
qed

lemma argInt_VInt: "(m n = None \<and> P d) \<or> (\<exists>i. m n = Some (VInt i) \<and> P i) \<Longrightarrow> P (argInt m n d)"
  by (auto simp: argInt_def)

text \<open>What a validated Perforce command may append to the fixed arguments.\<close>

definition safe_p4_args :: "scopes \<Rightarrow> string list \<Rightarrow> bool" where
  "safe_p4_args sc args \<longleftrightarrow>
     (\<exists>ch. args = [''describe'', ''-s'', Itoa ch] \<and> 1 \<le> ch \<and> ch \<le> 2 ^ 40) \<or>
     (\<exists>k p. args = [''changes'', ''-m'', Itoa k, p] \<and> 1 \<le> k \<and> k \<le> 200 \<and> path_ok (depot_scope sc) p)"

lemma validated_change:
  assumes "Resolve ''p4.describe'' raw sc tools = Inr (v, m)"
  shows "1 \<le> argInt m ''change'' 0 \<and> argInt m ''change'' 0 \<le> 2 ^ 40"
proof -
  have v: "v = describe_verb" using Resolve_named [OF assms Lookup_live(1)] .
  have "''change'' \<in> dom m"
    using Resolve_dom(2) [OF assms, of "hd (verb_args v)"] by (simp add: v table_defs)
  then obtain x where x: "m ''change'' = Some x" by blast
  from Resolve_value [OF assms x] show ?thesis
    using x by (auto simp: v table_defs value_ok_def argInt_def split: argval.splits)
qed

lemma validated_path:
  assumes "Resolve ''p4.changes'' raw sc tools = Inr (v, m)"
  shows "path_ok (depot_scope sc) (argString m ''path'') \<and> 1 \<le> argInt m ''max'' 25 \<and> argInt m ''max'' 25 \<le> 200"
proof -
  have v: "v = changes_verb" using Resolve_named [OF assms Lookup_live(2)] .
  have names: "arg_name changes_path = ''path''" "arg_name changes_max = ''max''" "required changes_path"
    by (simp_all add: changes_path_def changes_max_def zero_arg_def)
  have val: "\<exists>a \<in> {changes_path, changes_max}. arg_name a = n \<and> value_ok a sc x" if "m n = Some x" for n x
    using Resolve_value [OF assms that] by (simp add: v changes_verb_def)
  have "''path'' \<in> dom m"
    using Resolve_dom(2) [OF assms, of changes_path] by (simp add: v changes_verb_def names)
  then obtain x where x: "m ''path'' = Some x" by blast
  have "value_ok changes_path sc x" using val [OF x] names by auto
  then have "path_ok (depot_scope sc) (argString m ''path'')"
    using x value_ok_path_iff
    by (cases x) (auto simp: value_ok_def changes_path_def zero_arg_def argString_def)
  moreover have "1 \<le> argInt m ''max'' 25 \<and> argInt m ''max'' 25 \<le> 200"
  proof (cases "m ''max''")
    case (Some y)
    then have "value_ok changes_max sc y" using val [OF Some] names by auto
    then show ?thesis using Some
      by (cases y) (auto simp: value_ok_def changes_max_def zero_arg_def argInt_def)
  qed (simp add: argInt_def)
  ultimately show ?thesis by blast
qed

text \<open>A validated Perforce command runs one process, once: the configured binary with the
  configured port and user, followed by \<open>describe -s\<close> and a change number, or
  \<open>changes -m\<close>, a cap and a path that passed the path rule. The result depends on the
  process for no other command line.\<close>

lemma perforce_command_line:
  assumes "Resolve name raw sc tools = Inr (v, m)" "verb_tool v = ''perforce''"
  shows "\<exists>args. safe_p4_args sc args \<and>
    (\<forall>mb. snd (Perforce_Execute w c (verb_name v) m mb) =
      [RunProcess (p4_binary c) (p4_argv c args) (p4_env w c) (p4_timeout c)]) \<and>
    (\<forall>f. f (p4_binary c) (p4_argv c args) (p4_env w c) (p4_timeout c) =
        process w (p4_binary c) (p4_argv c args) (p4_env w c) (p4_timeout c) \<longrightarrow>
      (\<forall>mb. Perforce_Execute (w\<lparr>process := f\<rparr>) c (verb_name v) m mb = Perforce_Execute w c (verb_name v) m mb))"
proof -
  from assms(1) have v: "v \<in> set Vocabulary" "compiled v" "verb_name v = name" by (rule Resolve_InrD, simp)+
  from perforce_verbs_live [OF v(1,2) assms(2)] show ?thesis
  proof
    assume d: "v = describe_verb"
    then have n: "name = ''p4.describe''" using v(3) by (simp add: describe_verb_def zero_verb_def)
    let ?args = "describe_args (argInt m ''change'' 0)"
    have "safe_p4_args sc ?args"
      using validated_change [OF assms(1) [unfolded n]] by (auto simp: safe_p4_args_def describe_args_def)
    then show ?thesis
      using v(3) n run_p4_local describe_local
      by (intro exI [of _ ?args]) (auto simp: Perforce_Execute_def describe_effect changes_effect run_p4_effect)
  next
    assume d: "v = changes_verb"
    then have n: "name = ''p4.changes''" using v(3) by (simp add: changes_verb_def zero_verb_def)
    let ?args = "changes_args (argString m ''path'') (argInt m ''max'' 25)"
    have "safe_p4_args sc ?args"
      using validated_path [OF assms(1) [unfolded n]] by (auto simp: safe_p4_args_def changes_args_def)
    then show ?thesis
      using v(3) n run_p4_local changes_local
      by (intro exI [of _ ?args]) (auto simp: Perforce_Execute_def describe_effect changes_effect run_p4_effect)
  qed
qed

subsection \<open>Failures\<close>

definition error_record :: "p4_world \<Rightarrow> p4_record \<Rightarrow> bool" where
  "error_record w m \<longleftrightarrow>
     TrimSpace (str w m ''data'') \<noteq> [] \<and>
     (case numField w m ''severity'' of None \<Rightarrow> True | Some f \<Rightarrow> float_at_least f 3)"

lemma firstLine_no_newline: "CHR 0x0A \<notin> set (firstLine s)"
  using IndexByte_None_iff [of s "CHR 0x0A"] IndexByte_SomeD [of s "CHR 0x0A"]
  by (auto simp: firstLine_def split: option.splits)

lemma first_error_find:
  "first_error_in w ms =
     (case find (error_record w) ms of None \<Rightarrow> [] | Some m \<Rightarrow> firstLine (TrimSpace (str w m ''data'')))"
  by (induction ms) (auto simp: error_record_def p4SeverityFailed_def Let_def split: option.splits)

text \<open>C35. The text of a failure: the first line of the first record on standard output
  that carries data and is of severity 3 or more, or of none; without such a record,
  the first line of standard error; without that, the first line of the wait status.
  It never holds a newline.\<close>

theorem failure_detail_precedence:
  "failureDetail w out err status =
     (case find (error_record w) (decode_records w out) of
        Some m \<Rightarrow>
          (if firstLine (TrimSpace (str w m ''data'')) \<noteq> [] then firstLine (TrimSpace (str w m ''data''))
           else if TrimSpace err \<noteq> [] then firstLine (TrimSpace err) else firstLine status)
      | None \<Rightarrow> if TrimSpace err \<noteq> [] then firstLine (TrimSpace err) else firstLine status) \<and>
   CHR 0x0A \<notin> set (failureDetail w out err status)"
  using firstLine_no_newline
  by (auto simp: failureDetail_def firstErrorRecord_def first_error_find Let_def split: option.splits)

end
