(* ===== verification/Team_City.thy ===== *)
theory Team_City
  imports Executor Config Protocol
begin

text \<open>
  \<open>internal/tools/teamcity.go\<close>: the REST executor. Parameters: \<open>url.Parse\<close>,
  \<open>URL.String\<close> and \<open>QueryEscape\<close>, the certificate file, and the HTTP client, whose
  answer to a request, under the settings it was built with, is a response or the text
  of a transport error.
\<close>

subsection \<open>The client\<close>

record tc_request =
  rq_url :: string
  rq_authorization :: string
  rq_accept :: string

record tc_response =
  rs_status :: int
  rs_body :: string
  rs_read_error :: "string option"

text \<open>The settings of the HTTP client: \<open>http.Client\<close> and its transport's TLS configuration.\<close>

record http_client =
  hc_timeout :: int
  hc_roots :: "string option"
  hc_skip_verify :: bool
  hc_min_tls :: nat
  hc_follow_redirects :: bool

definition VersionTLS12 :: nat where "VersionTLS12 = 0x0303"

record tc_world =
  tcw_url :: url_parser
  url_string :: "url \<Rightarrow> string"
  query_escape :: "string \<Rightarrow> string"
  new_request :: "string \<Rightarrow> string option"
  http_do :: "http_client \<Rightarrow> tc_request \<Rightarrow> string + tc_response"
  tcw_read_file :: "string \<Rightarrow> string option"
  tcw_has_certs :: "string \<Rightarrow> bool"

record teamcity_client =
  tc_base :: url
  tc_bearer :: string
  tc_http :: http_client

definition serverInfoFields :: string where
  "serverInfoFields = ''version,versionMajor,versionMinor,buildNumber,webUrl''"

definition buildFields :: string where
  "buildFields = ''id,buildTypeId,number,status,state,statusText,branchName,webUrl,'' @
     ''queuedDate,startDate,finishDate,'' @
     ''revisions(revision(version,vcsBranchName,vcs-root-instance(id,vcs-root-id,vcsName)))''"

definition trim_slashes :: "string \<Rightarrow> string" where
  "trim_slashes s = rev (dropWhile (\<lambda>c. c = CHR ''/'') (rev s))"

datatype tc_error = TCNotConfigured | TCBadURL | TCReadCA | TCNoCerts

definition NewTeamCity :: "tc_world \<Rightarrow> teamcity_config \<Rightarrow> tc_error + teamcity_client" where
  "NewTeamCity w c =
     (if \<not> tc_enabled c then Inl TCNotConfigured
      else (case tcw_url w (trim_slashes (tc_url c)) of
        None \<Rightarrow> Inl TCBadURL
      | Some u \<Rightarrow>
          bind_result
            (if tc_ca_file c = [] then Inr None
             else (case tcw_read_file w (tc_ca_file c) of
                     None \<Rightarrow> Inl TCReadCA
                   | Some pem \<Rightarrow> if tcw_has_certs w pem then Inr (Some pem) else Inl TCNoCerts))
            (\<lambda>roots. Inr
               \<lparr>tc_base = u, tc_bearer = tc_token c,
                tc_http = \<lparr>hc_timeout = tc_timeout c, hc_roots = roots, hc_skip_verify = tc_insecure c,
                  hc_min_tls = VersionTLS12, hc_follow_redirects = False\<rparr>\<rparr>)))"

subsection \<open>Projections\<close>

record server_info =
  si_version :: string
  si_major :: int
  si_minor :: int
  si_build_number :: string
  si_web_url :: string

record build_revision =
  br_version :: string
  br_branch :: string

record build_info =
  bi_id :: int
  bi_build_type :: string
  bi_number :: string
  bi_status :: string
  bi_state :: string
  bi_status_text :: string
  bi_branch :: string
  bi_web_url :: string
  bi_queued :: string
  bi_start :: string
  bi_finish :: string
  bi_revisions :: "build_revision list option"

definition server_info_fields :: "string list" where
  "server_info_fields = [''version'', ''versionMajor'', ''versionMinor'', ''buildNumber'', ''webUrl'']"

definition decode_server_info :: "string \<Rightarrow> server_info option" where
  "decode_server_info raw =
     (case frame_members raw of
        None \<Rightarrow> None
      | Some ms \<Rightarrow>
          let fs = server_info_fields
          in if list_ex (\<lambda>k. field_bad as_string fs k ms) [''version'', ''buildNumber'', ''webUrl''] \<or>
                list_ex (\<lambda>k. field_bad as_int fs k ms) [''versionMajor'', ''versionMinor'']
             then None
             else Some
               \<lparr>si_version = field_value as_string [] fs ''version'' ms,
                si_major = field_value as_int 0 fs ''versionMajor'' ms,
                si_minor = field_value as_int 0 fs ''versionMinor'' ms,
                si_build_number = field_value as_string [] fs ''buildNumber'' ms,
                si_web_url = field_value as_string [] fs ''webUrl'' ms\<rparr>)"

definition revision_fields :: "string list" where
  "revision_fields = [''version'', ''vcsBranchName'']"

definition decode_revision :: "json \<Rightarrow> build_revision option" where
  "decode_revision v =
     (case struct_members v of
        None \<Rightarrow> None
      | Some ms \<Rightarrow>
          if list_ex (\<lambda>k. field_bad as_string revision_fields k ms) revision_fields then None
          else Some \<lparr>br_version = field_value as_string [] revision_fields ''version'' ms,
                     br_branch = field_value as_string [] revision_fields ''vcsBranchName'' ms\<rparr>)"

text \<open>
  A slice: \<open>null\<close> makes it \<open>nil\<close> (\<^const>\<open>None\<close>), an array replaces it. A second array for
  the same slice is decoded afresh here; Go would reuse the old elements as defaults.
\<close>

definition as_revisions :: "json \<Rightarrow> build_revision list option assign" where
  "as_revisions v =
     (case v of
        JArr vs \<Rightarrow>
          (if list_all (\<lambda>v. decode_revision v \<noteq> None) vs
           then Assign (Some (map (\<lambda>v. the (decode_revision v)) vs)) else TypeError)
      | JNull \<Rightarrow> Assign None
      | _ \<Rightarrow> TypeError)"

definition build_strings :: "string list" where
  "build_strings = [''buildTypeId'', ''number'', ''status'', ''state'', ''statusText'', ''branchName'',
     ''webUrl'', ''queuedDate'', ''startDate'', ''finishDate'']"

definition build_fields :: "string list" where
  "build_fields = ''id'' # build_strings @ [''revisions'']"

text \<open>The members of every object given for \<open>revisions\<close>, in order.\<close>

definition revision_values :: "json list \<Rightarrow> json list" where
  "revision_values vs =
     concat (map (\<lambda>v. case struct_members v of None \<Rightarrow> [] | Some ms \<Rightarrow> values_for [''revision''] ''revision'' ms) vs)"

definition decode_build :: "string \<Rightarrow> build_info option" where
  "decode_build raw =
     (case frame_members raw of
        None \<Rightarrow> None
      | Some ms \<Rightarrow>
          let fs = build_fields; s = (\<lambda>k. field_value as_string [] fs k ms);
              rs = values_for fs ''revisions'' ms
          in if list_ex (\<lambda>k. field_bad as_string fs k ms) build_strings \<or> field_bad as_int fs ''id'' ms \<or>
                list_ex (\<lambda>v. struct_members v = None) rs \<or> any_type_error as_revisions (revision_values rs)
             then None
             else Some
               \<lparr>bi_id = field_value as_int 0 fs ''id'' ms, bi_build_type = s ''buildTypeId'',
                bi_number = s ''number'', bi_status = s ''status'', bi_state = s ''state'',
                bi_status_text = s ''statusText'', bi_branch = s ''branchName'', bi_web_url = s ''webUrl'',
                bi_queued = s ''queuedDate'', bi_start = s ''startDate'', bi_finish = s ''finishDate'',
                bi_revisions = assign_all as_revisions None (revision_values rs)\<rparr>)"

definition server_info_text :: "server_info \<Rightarrow> string" where
  "server_info_text i = json_object
     [(''version'', quote_json (si_version i)), (''versionMajor'', Itoa (si_major i)),
      (''versionMinor'', Itoa (si_minor i)), (''buildNumber'', quote_json (si_build_number i)),
      (''webUrl'', quote_json (si_web_url i))]"

definition revision_text :: "build_revision \<Rightarrow> string" where
  "revision_text r = json_object
     [(''version'', quote_json (br_version r)), (''vcsBranchName'', quote_json (br_branch r))]"

definition build_text :: "build_info \<Rightarrow> string" where
  "build_text b = json_object
     [(''id'', Itoa (bi_id b)), (''buildTypeId'', quote_json (bi_build_type b)),
      (''number'', quote_json (bi_number b)), (''status'', quote_json (bi_status b)),
      (''state'', quote_json (bi_state b)), (''statusText'', quote_json (bi_status_text b)),
      (''branchName'', quote_json (bi_branch b)), (''webUrl'', quote_json (bi_web_url b)),
      (''queuedDate'', quote_json (bi_queued b)), (''startDate'', quote_json (bi_start b)),
      (''finishDate'', quote_json (bi_finish b)),
      (''revisions'', json_object
         [(''revision'', case bi_revisions b of None \<Rightarrow> ''null'' | Some rs \<Rightarrow> json_array (map revision_text rs))])]"

subsection \<open>A request\<close>

definition redactURL :: "string \<Rightarrow> string \<Rightarrow> string" where
  "redactURL err secret = (if secret = [] then err else ReplaceAll err secret ''[redacted]'')"

definition request_for :: "tc_world \<Rightarrow> teamcity_client \<Rightarrow> string \<Rightarrow> string \<Rightarrow> tc_request" where
  "request_for w t path projection =
     \<lparr>rq_url = url_string w ((tc_base t)
        \<lparr>url_path := url_path (tc_base t) @ path,
         url_raw_query := (if projection \<noteq> [] then ''fields='' @ query_escape w projection else [])\<rparr>),
      rq_authorization = ''Bearer '' @ tc_bearer t, rq_accept = ''application/json''\<rparr>"

text \<open>
  The byte count, the truncation flag, and the decoded value or the error's text; and
  the request that was sent, if one was.
\<close>

definition sent_request :: "tc_request \<Rightarrow> effect" where
  "sent_request rq = SendRequest (rq_url rq) (rq_authorization rq) (rq_accept rq)"

definition tc_get :: "tc_world \<Rightarrow> teamcity_client \<Rightarrow> string \<Rightarrow> string \<Rightarrow> int \<Rightarrow> (string \<Rightarrow> 'a option) \<Rightarrow>
    (int \<times> bool \<times> (string + 'a)) \<times> effect list" where
  "tc_get w t path projection maxBytes0 decode =
     (let req = request_for w t path projection
      in case new_request w (rq_url req) of
           Some e \<Rightarrow> ((0, False, Inl e), [])
         | None \<Rightarrow>
             (case http_do w (tc_http t) req of
                Inl e \<Rightarrow> (0, False, Inl (''teamcity: '' @ redactURL e (tc_bearer t)))
              | Inr resp \<Rightarrow>
                  let maxBytes = (if maxBytes0 \<le> 0 then 64 * 2 ^ 10 else maxBytes0);
                      limited = take (nat (maxBytes + 1)) (rs_body resp)
                  in case rs_read_error resp of
                       Some e \<Rightarrow> (0, False, Inl (''teamcity: read: '' @ e))
                     | None \<Rightarrow>
                         let truncated = int (length limited) > maxBytes;
                             body = (if truncated then take (nat maxBytes) limited else limited);
                             n = int (length body)
                         in if rs_status resp \<noteq> 200 then
                              (n, truncated, Inl (''teamcity: HTTP '' @ Itoa (rs_status resp)))
                            else (case decode body of
                                    Some x \<Rightarrow> (n, truncated, Inr x)
                                  | None \<Rightarrow>
                                      (n, truncated,
                                       Inl (if truncated then ''teamcity: response exceeded max_bytes''
                                            else ''teamcity: malformed response''))),
              [sent_request req]))"

definition exec_of :: "(int \<times> bool \<times> (string + 'a)) \<times> effect list \<Rightarrow> ('a \<Rightarrow> string) \<Rightarrow> exec_result \<times> effect list" where
  "exec_of r sh =
     (case r of ((n, tr, Inl e), fx) \<Rightarrow> (ExecErr e n tr, fx) | ((n, tr, Inr x), fx) \<Rightarrow> (ExecOK (sh x) n tr, fx))"

definition build_path :: "int \<Rightarrow> string" where
  "build_path i = ''/app/rest/builds/id:'' @ Itoa i"

definition TeamCity_Execute :: "tc_world \<Rightarrow> teamcity_client \<Rightarrow> string \<Rightarrow> argmap \<Rightarrow> int \<Rightarrow>
    exec_result \<times> effect list" where
  "TeamCity_Execute w t v args maxBytes =
     (if v = ''teamcity.server.info'' then
        exec_of (tc_get w t ''/app/rest/server'' serverInfoFields maxBytes decode_server_info) server_info_text
      else if v = ''teamcity.build.get'' then
        exec_of (tc_get w t (build_path (argInt args ''build_id'' 0)) buildFields maxBytes decode_build) build_text
      else (ExecErr (''teamcity: no executor for '' @ v) 0 False, []))"

definition TeamCity_Version :: "tc_world \<Rightarrow> teamcity_client \<Rightarrow> string" where
  "TeamCity_Version w t =
     (case fst (tc_get w t ''/app/rest/server'' serverInfoFields 8192 decode_server_info) of
        (_, _, Inl _) \<Rightarrow> []
      | (_, _, Inr info) \<Rightarrow> si_version info)"

subsection \<open>As an executor\<close>

definition tc_cap :: "int \<Rightarrow> int" where
  "tc_cap b = (if b \<le> 0 then 64 * 2 ^ 10 else b)"

lemma tc_get_bytes: "tc_get w t p f b d = ((n, tr, r), fx) \<Longrightarrow> 0 \<le> n \<and> n \<le> tc_cap b"
  by (auto simp: tc_get_def tc_cap_def Let_def split: option.splits sum.splits if_splits)

lemma tc_get_effect:
  "snd (tc_get w t p f b d) =
     (if new_request w (rq_url (request_for w t p f)) = None then [sent_request (request_for w t p f)] else [])"
  by (simp add: tc_get_def Let_def split: option.split)

lemma exec_of_effect [simp]: "snd (exec_of r sh) = snd r"
  by (simp add: exec_of_def split: prod.split sum.split)

lemma exec_of_bytes: "result_bytes (fst (exec_of (tc_get w t p f b d) sh)) \<in> {0..tc_cap b}"
  using tc_get_bytes [of w t p f b d] by (cases "tc_get w t p f b d") (auto simp: exec_of_def split: sum.splits)

lemma exec_of_printable: "fst (exec_of r sh) = ExecOK s n tr \<Longrightarrow> (\<And>x. printable (sh x)) \<Longrightarrow> printable s"
  by (auto simp: exec_of_def split: prod.splits sum.splits)

lemma TeamCity_bytes: "result_bytes (fst (TeamCity_Execute w t v m b)) \<in> {0..tc_cap b}"
proof -
  have "0 \<le> tc_cap b" by (simp add: tc_cap_def)
  then show ?thesis
    using exec_of_bytes [where 'a = server_info and b = b] exec_of_bytes [where 'a = build_info and b = b]
    by (simp add: TeamCity_Execute_def)
qed

lemma printable_server_info: "printable (server_info_text i)"
  unfolding server_info_text_def by (rule printable_json_object) (simp add: printable_texts)

lemma printable_build: "printable (build_text b)"
proof -
  have "printable (revision_text r)" for r
    unfolding revision_text_def by (rule printable_json_object) (simp add: printable_texts)
  then have "printable (json_array (map revision_text rs))" for rs
    by (intro printable_json_array) (simp add: list_all_iff)
  then have "printable (json_object
      [(''revision'', case bi_revisions b of None \<Rightarrow> ''null'' | Some rs \<Rightarrow> json_array (map revision_text rs))])"
    by (intro printable_json_object) (simp add: printable_Cons split: option.split)
  then show ?thesis unfolding build_text_def
    by (intro printable_json_object) (simp add: printable_texts)
qed

interpretation tc: tool_executor "TeamCity_Execute w t" "[''teamcity.server.info'', ''teamcity.build.get'']" tc_cap for w t
proof
  show "0 \<le> result_bytes (fst (TeamCity_Execute w t v m b))"
    "result_bytes (fst (TeamCity_Execute w t v m b)) \<le> tc_cap b" for v m b
    using TeamCity_bytes [of w t v m b] by auto
  show "\<exists>e. TeamCity_Execute w t v m b = (ExecErr e 0 False, [])"
    if "v \<notin> set [''teamcity.server.info'', ''teamcity.build.get'']" for v m b
    using that by (simp add: TeamCity_Execute_def)
  show "length (snd (TeamCity_Execute w t v m b)) \<le> 1" for v m b
    by (simp add: TeamCity_Execute_def tc_get_effect)
  show "printable x" if "fst (TeamCity_Execute w t v m b) = ExecOK x n tr" for v m b x n tr
    using that
    by (auto simp: TeamCity_Execute_def split: if_splits
        dest: exec_of_printable [OF _ printable_server_info] exec_of_printable [OF _ printable_build])
qed

end
