(* ===== verification/Team_City_Properties.thy ===== *)
theory Team_City_Properties
  imports Team_City Argument_Properties
begin

text \<open>
  The TeamCity executor: which request a validated command can make, the limits on
  what is read, and the token's absence from error texts.
\<close>

subsection \<open>The token in error texts\<close>

lemma HasPrefix_split: "c \<notin> set u \<Longrightarrow> HasPrefix (x @ c # y) u \<Longrightarrow> HasPrefix x u"
proof (induction x arbitrary: u)
  case Nil
  then show ?case by (cases u) auto
next
  case (Cons d x)
  then show ?case by (cases u) auto
qed

lemma Contains_Cons: "Contains (c # s) u \<longleftrightarrow> HasPrefix (c # s) u \<or> Contains s u"
  by (auto simp: Contains_def)

lemma Contains_split:
  "c \<notin> set u \<Longrightarrow> u \<noteq> [] \<Longrightarrow> Contains (x @ c # y) u \<Longrightarrow> Contains x u \<or> Contains y u"
proof (induction x)
  case Nil
  then show ?case by (cases u) (auto simp: Contains_Cons)
next
  case (Cons d x)
  then show ?case using HasPrefix_split [of c u "d # x" y] by (auto simp: Contains_Cons)
qed

lemma ReplaceAll_steps:
  assumes "old \<noteq> []"
  shows "ReplaceAll [] old new = []"
    and "HasPrefix s old \<Longrightarrow> ReplaceAll s old new = new @ ReplaceAll (drop (length old) s) old new"
    and "\<not> HasPrefix (c # s) old \<Longrightarrow> ReplaceAll (c # s) old new = c # ReplaceAll s old new"
  using assms by (subst ReplaceAll.simps, simp)+

lemma ReplaceAll_prefix:
  "old \<noteq> [] \<Longrightarrow> l \<notin> set p \<Longrightarrow> HasPrefix (ReplaceAll s old (l # new)) p \<Longrightarrow> HasPrefix s p"
proof (induction s arbitrary: p)
  case Nil
  then show ?case by (simp add: ReplaceAll_steps)
next
  case (Cons c s)
  show ?case
  proof (cases "HasPrefix (c # s) old")
    case True
    then show ?thesis using Cons.prems by (cases p) (auto simp: ReplaceAll_steps)
  next
    case False
    then show ?thesis using Cons by (cases p) (auto simp: ReplaceAll_steps)
  qed
qed

lemma ReplaceAll_removes:
  assumes "old \<noteq> []" "l \<notin> set old" "r \<notin> set old" "\<not> Contains mid old"
  shows "\<not> Contains (ReplaceAll s old (l # mid @ [r])) old"
proof (induction "length s" arbitrary: s rule: less_induct)
  case less
  let ?R = "\<lambda>s. ReplaceAll s old (l # mid @ [r])"
  have empty: "\<not> Contains [] old" using assms(1) by (simp add: Contains_def)
  show ?case
  proof (cases "HasPrefix s old")
    case True
    have "\<not> Contains (?R (drop (length old) s)) old"
      using less [OF HasPrefix_drop_less [OF True assms(1)]] .
    then have "\<not> Contains (mid @ r # ?R (drop (length old) s)) old"
      using Contains_split [OF assms(3,1)] assms(4) by blast
    then have "\<not> Contains ([] @ l # mid @ r # ?R (drop (length old) s)) old"
      using Contains_split [OF assms(2,1)] empty by blast
    then show ?thesis using True assms(1) by (simp add: ReplaceAll_steps)
  next
    case False
    show ?thesis
    proof (cases s)
      case Nil
      then show ?thesis using assms(1) empty by (simp add: ReplaceAll_steps)
    next
      case (Cons c t)
      then have eq: "?R s = c # ?R t" using False assms(1) by (simp add: ReplaceAll_steps)
      have "\<not> Contains (?R t) old" using less [of t] Cons by simp
      moreover have "\<not> HasPrefix (c # ?R t) old"
        using ReplaceAll_prefix [OF assms(1,2), of s "mid @ [r]"] False eq by auto
      ultimately show ?thesis unfolding eq by (simp add: Contains_Cons)
    qed
  qed
qed

text \<open>C36. A transport error never carries the TeamCity token: after redaction the text
  does not contain it anywhere, for any token without brackets that is not itself part
  of the word that replaces it.\<close>

theorem redaction_removes_token:
  assumes "http_do w (tc_http t) (request_for w t path projection) = Inl e" "new_request w (rq_url (request_for w t path projection)) = None"
    and "tc_bearer t \<noteq> []" "CHR ''['' \<notin> set (tc_bearer t)" "CHR '']'' \<notin> set (tc_bearer t)"
    and "\<not> Contains ''redacted'' (tc_bearer t)"
  shows "\<exists>e'. fst (tc_get w t path projection mb decode) = (0, False, Inl (''teamcity: '' @ e')) \<and>
    \<not> Contains e' (tc_bearer t)"
proof -
  have "\<not> Contains (redactURL e (tc_bearer t)) (tc_bearer t)"
    using ReplaceAll_removes [OF assms(3-6), of e] assms(3) by (simp add: redactURL_def)
  then show ?thesis using assms(1,2) by (simp add: tc_get_def)
qed

subsection \<open>Limits\<close>

text \<open>What is read is bounded by the caller's limit (64 KiB when it gives none): the
  result and its byte count depend only on the first \<open>max\<close> bytes of the response, and it
  is marked truncated exactly when the response was longer; a status other than 200 is
  an error whatever the body says.\<close>

theorem teamcity_read_limit:
  assumes "new_request w (rq_url (request_for w t path projection)) = None"
    and "http_do w (tc_http t) (request_for w t path projection) = Inr resp" "rs_read_error resp = None"
  shows "fst (fst (tc_get w t path projection mb decode)) = min (int (length (rs_body resp))) (tc_cap mb) \<and>
    fst (snd (fst (tc_get w t path projection mb decode))) = (int (length (rs_body resp)) > tc_cap mb) \<and>
    (case snd (snd (fst (tc_get w t path projection mb decode))) of
       Inr x \<Rightarrow> rs_status resp = 200 \<and> decode (take (nat (tc_cap mb)) (rs_body resp)) = Some x
     | Inl e \<Rightarrow> rs_status resp \<noteq> 200 \<or> decode (take (nat (tc_cap mb)) (rs_body resp)) = None)"
proof -
  define M where "M = tc_cap mb"
  have M: "0 < M" "(if mb \<le> 0 then 64 * 2 ^ 10 else mb) = M" by (simp_all add: M_def tc_cap_def)
  define body where "body = (if int (length (rs_body resp)) > M then take (nat M) (rs_body resp) else rs_body resp)"
  have lim: "int (length (take (nat (M + 1)) (rs_body resp))) > M \<longleftrightarrow> int (length (rs_body resp)) > M"
    using M(1) by auto
  have short: "take (nat (M + 1)) (rs_body resp) = rs_body resp" if "\<not> int (length (rs_body resp)) > M"
    using that by simp
  have "take (nat M) (take (nat (M + 1)) (rs_body resp)) = take (nat M) (rs_body resp)"
    using M(1) by (simp add: min_def)
  then have body: "(if int (length (rs_body resp)) > M
      then take (nat M) (take (nat (M + 1)) (rs_body resp)) else take (nat (M + 1)) (rs_body resp)) = body"
    unfolding body_def using short by auto
  have pref: "body = take (nat M) (rs_body resp)" by (auto simp: body_def)
  have n: "int (length body) = min (int (length (rs_body resp))) M" using M(1) by (auto simp: pref)
  have get: "fst (tc_get w t path projection mb decode) =
      (if rs_status resp \<noteq> 200 then (int (length body), int (length (rs_body resp)) > M,
         Inl (''teamcity: HTTP '' @ Itoa (rs_status resp)))
       else (case decode body of
         Some x \<Rightarrow> (int (length body), int (length (rs_body resp)) > M, Inr x)
       | None \<Rightarrow> (int (length body), int (length (rs_body resp)) > M,
           Inl (if int (length (rs_body resp)) > M then ''teamcity: response exceeded max_bytes''
                else ''teamcity: malformed response''))))"
    using assms unfolding tc_get_def Let_def M(2) by (simp only: lim body option.case sum.case fst_conv)
  show ?thesis
    unfolding get M_def [symmetric] using n pref by (auto split: option.splits)
qed

subsection \<open>The request\<close>

lemma teamcity_verbs_live:
  assumes "v \<in> set Vocabulary" "compiled v" "verb_tool v = ''teamcity''"
  shows "verb_name v = ''teamcity.server.info'' \<or> v = build_verb"
proof -
  have "list_all (\<lambda>v. verb_name v = ''teamcity.server.info'' \<or> v = build_verb)
      (filter (\<lambda>v. compiled v \<and> verb_tool v = ''teamcity'') Vocabulary)"
    by (simp add: table_defs)
  moreover have "v \<in> set (filter (\<lambda>v. compiled v \<and> verb_tool v = ''teamcity'') Vocabulary)"
    using assms by simp
  ultimately show ?thesis by (simp add: list_all_iff)
qed

lemma validated_build:
  assumes "Resolve ''teamcity.build.get'' raw sc tools = Inr (v, m)"
  shows "1 \<le> argInt m ''build_id'' 0 \<and> argInt m ''build_id'' 0 \<le> 2 ^ 40"
proof -
  have v: "v = build_verb" using Resolve_named [OF assms Lookup_live(3)] .
  have "''build_id'' \<in> dom m"
    using Resolve_dom(2) [OF assms, of build_id_arg]
    by (simp add: v build_verb_def) (simp add: build_id_arg_def zero_arg_def)
  then obtain x where x: "m ''build_id'' = Some x" by blast
  from Resolve_value [OF assms x] have "value_ok build_id_arg sc x" by (simp add: v build_verb_def)
  then show ?thesis using x by (cases x) (auto simp: value_ok_def argInt_def build_id_arg_def zero_arg_def)
qed

lemma tc_get_local:
  assumes "f (tc_http t) (request_for w t p pr) = http_do w (tc_http t) (request_for w t p pr)"
  shows "tc_get (w\<lparr>http_do := f\<rparr>) t p pr mb d = tc_get w t p pr mb d"
proof -
  have "request_for (w\<lparr>http_do := f\<rparr>) t p pr = request_for w t p pr" by (simp add: request_for_def)
  moreover have "new_request (w\<lparr>http_do := f\<rparr>) = new_request w" "http_do (w\<lparr>http_do := f\<rparr>) = f" by simp_all
  ultimately show ?thesis using assms by (simp only: tc_get_def Let_def)
qed

lemma NewTeamCity_InrD:
  assumes "NewTeamCity w c = Inr t"
  shows "tcw_url w (trim_slashes (tc_url c)) = Some (tc_base t) \<and> tc_bearer t = tc_token c \<and>
    hc_timeout (tc_http t) = tc_timeout c \<and> hc_min_tls (tc_http t) = VersionTLS12 \<and>
    \<not> hc_follow_redirects (tc_http t) \<and> hc_skip_verify (tc_http t) = tc_insecure c \<and>
    (if tc_ca_file c = [] then hc_roots (tc_http t) = None
     else \<exists>pem. tcw_read_file w (tc_ca_file c) = Some pem \<and> tcw_has_certs w pem \<and> hc_roots (tc_http t) = Some pem)"
  using assms by (auto simp: NewTeamCity_def bind_result_Inr_iff split: if_splits option.splits)

lemma request_for_projection:
  "pr \<noteq> [] \<Longrightarrow> request_for w t p pr =
      \<lparr>rq_url = url_string w ((tc_base t)\<lparr>url_path := url_path (tc_base t) @ p,
         url_raw_query := ''fields='' @ query_escape w pr\<rparr>),
       rq_authorization = ''Bearer '' @ tc_bearer t, rq_accept = ''application/json''\<rparr>"
  by (simp add: request_for_def)

text \<open>C20. A validated TeamCity command sends at most one request: under the configured
  base URL, whose scheme and host it cannot change, to the server resource or to one
  build by its number, with a fixed projection; its result depends on the HTTP client
  for no other request. The client is the one built from the configuration: it follows
  no redirect (which could carry the token to another host), takes TLS 1.2 or newer,
  trusts the configured certificates, and skips their verification only if the
  configuration says so.\<close>

theorem teamcity_one_request:
  assumes "Resolve name raw sc tools = Inr (v, m)" "verb_tool v = ''teamcity''"
  shows "(\<exists>p pr. ((p = ''/app/rest/server'' \<and> pr = serverInfoFields) \<or>
      (\<exists>i. p = ''/app/rest/builds/id:'' @ Itoa i \<and> 1 \<le> i \<and> i \<le> 2 ^ 40 \<and> pr = buildFields)) \<and>
    request_for w t p pr =
      \<lparr>rq_url = url_string w ((tc_base t)\<lparr>url_path := url_path (tc_base t) @ p,
         url_raw_query := ''fields='' @ query_escape w pr\<rparr>),
       rq_authorization = ''Bearer '' @ tc_bearer t, rq_accept = ''application/json''\<rparr> \<and>
    snd (TeamCity_Execute w t name m mb) \<in> {[], [sent_request (request_for w t p pr)]} \<and>
    (\<forall>f. f (tc_http t) (request_for w t p pr) = http_do w (tc_http t) (request_for w t p pr) \<longrightarrow>
      TeamCity_Execute (w\<lparr>http_do := f\<rparr>) t name m mb = TeamCity_Execute w t name m mb)) \<and>
   (\<forall>tw c. NewTeamCity tw c = Inr t \<longrightarrow>
      tcw_url tw (trim_slashes (tc_url c)) = Some (tc_base t) \<and> tc_bearer t = tc_token c \<and>
      \<not> hc_follow_redirects (tc_http t) \<and> hc_min_tls (tc_http t) = VersionTLS12 \<and>
      hc_skip_verify (tc_http t) = tc_insecure c \<and>
      (tc_ca_file c \<noteq> [] \<longrightarrow> hc_roots (tc_http t) = tcw_read_file tw (tc_ca_file c) \<and> hc_roots (tc_http t) \<noteq> None))"
proof (rule conjI)
  from assms(1) have v: "v \<in> set Vocabulary" "compiled v" "verb_name v = name" by (rule Resolve_InrD, simp)+
  define fits where "fits p pr \<longleftrightarrow> name = ''teamcity.server.info'' \<and> p = ''/app/rest/server'' \<and> pr = serverInfoFields \<or>
      name = ''teamcity.build.get'' \<and> p = build_path (argInt m ''build_id'' 0) \<and> pr = buildFields" for p pr
  have local: "\<forall>f. f (tc_http t) (request_for w t p pr) = http_do w (tc_http t) (request_for w t p pr) \<longrightarrow>
      TeamCity_Execute (w\<lparr>http_do := f\<rparr>) t name m mb = TeamCity_Execute w t name m mb"
    and once: "snd (TeamCity_Execute w t name m mb) \<in> {[], [sent_request (request_for w t p pr)]}"
    if "fits p pr" for p pr
    using that by (auto simp: fits_def TeamCity_Execute_def tc_get_local tc_get_effect)
  have proj: "serverInfoFields \<noteq> []" "buildFields \<noteq> []"
    by (simp_all add: serverInfoFields_def buildFields_def)
  have "\<exists>p pr. fits p pr \<and> pr \<noteq> [] \<and> ((p = ''/app/rest/server'' \<and> pr = serverInfoFields) \<or>
      (\<exists>i. p = ''/app/rest/builds/id:'' @ Itoa i \<and> 1 \<le> i \<and> i \<le> 2 ^ 40 \<and> pr = buildFields))"
    using teamcity_verbs_live [OF v(1,2) assms(2)]
  proof
    assume "verb_name v = ''teamcity.server.info''"
    then show ?thesis using v(3) proj
      by (intro exI [of _ "''/app/rest/server''"] exI [of _ serverInfoFields]) (simp add: fits_def)
  next
    assume "v = build_verb"
    then have n: "name = ''teamcity.build.get''" using v(3) by (simp add: build_verb_def zero_verb_def)
    show ?thesis using validated_build [OF assms(1) [unfolded n]] proj n
      by (intro exI [of _ "build_path (argInt m ''build_id'' 0)"] exI [of _ buildFields])
        (auto simp: fits_def build_path_def)
  qed
  then obtain p pr where p: "fits p pr" "pr \<noteq> []" "(p = ''/app/rest/server'' \<and> pr = serverInfoFields) \<or>
      (\<exists>i. p = ''/app/rest/builds/id:'' @ Itoa i \<and> 1 \<le> i \<and> i \<le> 2 ^ 40 \<and> pr = buildFields)" by blast
  show "\<exists>p pr. ((p = ''/app/rest/server'' \<and> pr = serverInfoFields) \<or>
      (\<exists>i. p = ''/app/rest/builds/id:'' @ Itoa i \<and> 1 \<le> i \<and> i \<le> 2 ^ 40 \<and> pr = buildFields)) \<and>
    request_for w t p pr =
      \<lparr>rq_url = url_string w ((tc_base t)\<lparr>url_path := url_path (tc_base t) @ p,
         url_raw_query := ''fields='' @ query_escape w pr\<rparr>),
       rq_authorization = ''Bearer '' @ tc_bearer t, rq_accept = ''application/json''\<rparr> \<and>
    snd (TeamCity_Execute w t name m mb) \<in> {[], [sent_request (request_for w t p pr)]} \<and>
    (\<forall>f. f (tc_http t) (request_for w t p pr) = http_do w (tc_http t) (request_for w t p pr) \<longrightarrow>
      TeamCity_Execute (w\<lparr>http_do := f\<rparr>) t name m mb = TeamCity_Execute w t name m mb)"
    by (intro exI conjI) (rule p(3), rule request_for_projection [OF p(2)], rule once [OF p(1)], rule local [OF p(1)])
qed (auto dest!: NewTeamCity_InrD split: if_splits)

subsection \<open>Witnesses\<close>

definition lan_url :: url where
  "lan_url = \<lparr>url_scheme = ''https'', url_host = ''tc.lan'', url_path = [], url_escaped_path = [],
     url_raw_query = [], url_has_user = False, url_fragment = []\<rparr>"

definition lan_client :: teamcity_client where
  "lan_client = \<lparr>tc_base = lan_url, tc_bearer = ''t0p'',
     tc_http = \<lparr>hc_timeout = 10 * 10 ^ 9, hc_roots = None, hc_skip_verify = False, hc_min_tls = VersionTLS12,
       hc_follow_redirects = False\<rparr>\<rparr>"

definition lan_world :: "(string + tc_response) \<Rightarrow> tc_world" where
  "lan_world r = \<lparr>tcw_url = (\<lambda>_. Some lan_url), url_string = url_path, query_escape = id,
     new_request = (\<lambda>_. None), http_do = (\<lambda>_ _. r), tcw_read_file = (\<lambda>_. None), tcw_has_certs = (\<lambda>_. False)\<rparr>"

theorem redaction_removes_token_witness:
  "\<exists>e. fst (tc_get (lan_world (Inl ''dial t0p: refused'')) lan_client ''/x'' [] 0 decode_server_info) =
     (0, False, Inl (''teamcity: '' @ e)) \<and> \<not> Contains e ''t0p''"
proof -
  have "\<not> Contains ''redacted'' ''t0p''" by code_simp
  then show ?thesis
    using redaction_removes_token [of "lan_world (Inl ''dial t0p: refused'')" lan_client "''/x''" "[]"
        "''dial t0p: refused''" 0 decode_server_info]
    by (simp add: lan_world_def lan_client_def)
qed

theorem teamcity_read_limit_witness:
  "fst (fst (tc_get (lan_world (Inr \<lparr>rs_status = 503, rs_body = ''down'', rs_read_error = None\<rparr>)) lan_client ''/x'' [] 2
     decode_server_info)) = 2"
  using teamcity_read_limit [of "lan_world (Inr \<lparr>rs_status = 503, rs_body = ''down'', rs_read_error = None\<rparr>)"
      lan_client "''/x''" "[]" "\<lparr>rs_status = 503, rs_body = ''down'', rs_read_error = None\<rparr>" 2 decode_server_info]
  by (simp add: lan_world_def tc_cap_def)

theorem teamcity_one_request_witness:
  "\<exists>p pr. rq_authorization (request_for (lan_world (Inl [])) lan_client p pr) = ''Bearer t0p'' \<and>
     HasPrefix p ''/app/rest/'' \<and>
     snd (TeamCity_Execute (lan_world (Inl [])) lan_client ''teamcity.build.get'' [''build_id'' \<mapsto> VInt 42] 0) =
       [sent_request (request_for (lan_world (Inl [])) lan_client p pr)]"
proof -
  have r: "Resolve ''teamcity.build.get'' (json_object [(''build_id'', Itoa 42)]) game_scope (\<lambda>_. True) =
      Inr (build_verb, [''build_id'' \<mapsto> VInt 42])"
  proof (rule Resolve_InrI [OF Lookup_live(3) _ _ _ one_int_supplied])
    have "validateInt build_id_arg (Itoa 42) = Inr (VInt 42)"
      by (rule validateInt_Itoa) (simp_all add: in_int64_def int64_min_def int64_max_def build_id_arg_def)
    then show "validate_loop (verb_name build_verb) (verb_args build_verb) [(''build_id'', Itoa 42)] game_scope Map.empty =
        Inr [''build_id'' \<mapsto> VInt 42]"
      by (simp add: build_verb_def last_of_def validate_def build_id_arg_def zero_arg_def)
  qed (simp_all add: build_verb_def zero_verb_def build_id_arg_def zero_arg_def)
  have t: "verb_tool build_verb = ''teamcity''" by (simp add: build_verb_def)
  note req = teamcity_one_request [OF r t, of "lan_world (Inl [])" lan_client 0, THEN conjunct1]
  show ?thesis
  proof (rule exE [OF req], elim exE conjE)
    fix p pr
    assume p: "(p = ''/app/rest/server'' \<and> pr = serverInfoFields) \<or>
        (\<exists>i. p = ''/app/rest/builds/id:'' @ Itoa i \<and> 1 \<le> i \<and> i \<le> 2 ^ 40 \<and> pr = buildFields)"
      and req: "request_for (lan_world (Inl [])) lan_client p pr =
        \<lparr>rq_url = url_string (lan_world (Inl [])) ((tc_base lan_client)\<lparr>url_path := url_path (tc_base lan_client) @ p,
           url_raw_query := ''fields='' @ query_escape (lan_world (Inl [])) pr\<rparr>),
         rq_authorization = ''Bearer '' @ tc_bearer lan_client, rq_accept = ''application/json''\<rparr>"
      and fx: "snd (TeamCity_Execute (lan_world (Inl [])) lan_client ''teamcity.build.get'' [''build_id'' \<mapsto> VInt 42] 0)
        \<in> {[], [sent_request (request_for (lan_world (Inl [])) lan_client p pr)]}"
    have "HasPrefix p ''/app/rest/''" using p by auto
    moreover have "rq_authorization (request_for (lan_world (Inl [])) lan_client p pr) = ''Bearer t0p''"
      unfolding req by (simp add: lan_client_def)
    moreover have "snd (TeamCity_Execute (lan_world (Inl [])) lan_client ''teamcity.build.get'' [''build_id'' \<mapsto> VInt 42] 0) \<noteq> []"
      by (simp add: TeamCity_Execute_def tc_get_effect) (simp add: lan_world_def)
    ultimately show ?thesis using fx by blast
  qed
qed

end
