(* ===== verification/Dedupe.thy ===== *)
theory Dedupe
  imports Prelude "HOL-Library.AList"
begin

text \<open>
  The duplicate check of \<open>internal/session/session.go\<close>: \<open>Runner.claim\<close> and the
  table \<open>seen\<close> it keeps. An instant is its nanoseconds; the table is an association
  list with distinct keys, since the code reads its length and iterates over it.
\<close>

subsection \<open>The table\<close>

definition dedupeWindow :: int where "dedupeWindow = 10 * 60 * 10 ^ 9"
definition dedupeMaxKeys :: nat where "dedupeMaxKeys = 4096"

type_synonym seen = "(string \<times> int) list"

text \<open>\<open>Time.Sub\<close>: a difference out of the range of a \<open>Duration\<close> is cut to its bounds.\<close>

definition time_sub :: "int \<Rightarrow> int \<Rightarrow> int" where
  "time_sub now t = max int64_min (min int64_max (now - t))"

definition purge_seen :: "int \<Rightarrow> seen \<Rightarrow> seen" where
  "purge_seen now s = filter (\<lambda>(k, t). \<not> time_sub now t > dedupeWindow) s"

definition claim :: "int \<Rightarrow> string \<Rightarrow> seen \<Rightarrow> bool \<times> seen" where
  "claim now i s0 =
     (let s = (if length s0 > dedupeMaxKeys then purge_seen now s0 else s0)
      in case map_of s i of
           Some t \<Rightarrow> if time_sub now t \<le> dedupeWindow then (False, s) else (True, AList.update i now s)
         | None \<Rightarrow> (True, AList.update i now s))"

definition seen_ok :: "seen \<Rightarrow> bool" where
  "seen_ok s \<longleftrightarrow> distinct (map fst s)"

subsection \<open>The specification\<close>

text \<open>A run of claims, and the same run answered from the full history of acceptances.\<close>

primrec claims :: "(int \<Rightarrow> 'i \<Rightarrow> 's \<Rightarrow> bool \<times> 's) \<Rightarrow> 's \<Rightarrow> (int \<times> 'i) list \<Rightarrow> bool list" where
  "claims f s [] = []"
| "claims f s (c # cs) = (let (ok, s') = f (fst c) (snd c) s in ok # claims f s' cs)"

definition allowed :: "int \<Rightarrow> (int \<times> 'i) list \<Rightarrow> int \<Rightarrow> 'i \<Rightarrow> bool" where
  "allowed w hist t i \<longleftrightarrow> list_all (\<lambda>(u, j). j = i \<longrightarrow> w < t - u) hist"

primrec by_history :: "int \<Rightarrow> (int \<times> 'i) list \<Rightarrow> (int \<times> 'i) list \<Rightarrow> bool list" where
  "by_history w hist [] = []"
| "by_history w hist (c # cs) =
     (let ok = allowed w hist (fst c) (snd c) in ok # by_history w (if ok then c # hist else hist) cs)"

subsection \<open>The interface\<close>

text \<open>
  What the session relies on, over the instant a store last accepted an id at: an id
  is accepted unless it was accepted within the window, an acceptance is remembered,
  a refusal changes no stamp, and what is forgotten was out of the window.
\<close>

locale duplicate_check =
  fixes try_claim :: "int \<Rightarrow> 'i \<Rightarrow> 's \<Rightarrow> bool \<times> 's"
    and stamp :: "'s \<Rightarrow> 'i \<Rightarrow> int option"
    and good :: "'s \<Rightarrow> bool"
    and window :: int
  assumes answers: "good s \<Longrightarrow>
      fst (try_claim t i s) \<longleftrightarrow> (case stamp s i of None \<Rightarrow> True | Some u \<Rightarrow> window < t - u)"
    and remembers: "good s \<Longrightarrow> fst (try_claim t i s) \<Longrightarrow> stamp (snd (try_claim t i s)) i = Some t"
    and refuses: "good s \<Longrightarrow> \<not> fst (try_claim t i s) \<Longrightarrow> stamp (snd (try_claim t i s)) i = stamp s i"
    and others: "good s \<Longrightarrow> j \<noteq> i \<Longrightarrow>
      stamp (snd (try_claim t i s)) j = stamp s j \<or>
      (stamp (snd (try_claim t i s)) j = None \<and> (\<exists>u. stamp s j = Some u \<and> window < t - u))"
    and stays_good: "good s \<Longrightarrow> good (snd (try_claim t i s))"
begin

text \<open>The store remembers of a history all that a claim from \<open>now\<close> on can depend on.\<close>

definition represents :: "(int \<times> 'i) list \<Rightarrow> int \<Rightarrow> 's \<Rightarrow> bool" where
  "represents hist now s \<longleftrightarrow> good s \<and>
     (\<forall>j. case stamp s j of
            None \<Rightarrow> (\<forall>u. (u, j) \<in> set hist \<longrightarrow> window < now - u)
          | Some u \<Rightarrow> (u, j) \<in> set hist \<and> (\<forall>u'. (u', j) \<in> set hist \<longrightarrow> u' \<le> u))"

lemma represents_later: "represents hist now s \<Longrightarrow> now \<le> t \<Longrightarrow> represents hist t s"
  by (force simp: represents_def split: option.splits)

lemma represents_at:
  "represents hist now s \<Longrightarrow> stamp s j = None \<Longrightarrow> (u, j) \<in> set hist \<Longrightarrow> window < now - u"
  "represents hist now s \<Longrightarrow> stamp s j = Some v \<Longrightarrow>
     (v, j) \<in> set hist \<and> (\<forall>u. (u, j) \<in> set hist \<longrightarrow> u \<le> v)"
  unfolding represents_def by (drule conjunct2, drule spec [of _ j], simp)+

lemma represents_answer:
  assumes "represents hist t s"
  shows "fst (try_claim t i s) \<longleftrightarrow> allowed window hist t i"
proof (cases "stamp s i")
  case None
  then show ?thesis using represents_at(1) [OF assms None] assms answers [of s t i]
    by (auto simp: represents_def allowed_def list_all_iff)
next
  case (Some v)
  from represents_at(2) [OF assms Some] have "allowed window hist t i \<longleftrightarrow> window < t - v"
    by (fastforce simp: allowed_def list_all_iff)
  then show ?thesis using Some assms answers [of s t i] by (simp add: represents_def)
qed

lemma represents_claim:
  assumes "represents hist t s" "\<forall>(u, j) \<in> set hist. u \<le> t"
  shows "represents (if fst (try_claim t i s) then (t, i) # hist else hist) t (snd (try_claim t i s))"
    (is "represents ?h t ?s")
proof -
  have good: "good s" using assms(1) by (simp add: represents_def)
  have "case stamp ?s j of
          None \<Rightarrow> (\<forall>u. (u, j) \<in> set ?h \<longrightarrow> window < t - u)
        | Some u \<Rightarrow> (u, j) \<in> set ?h \<and> (\<forall>u'. (u', j) \<in> set ?h \<longrightarrow> u' \<le> u)" for j
  proof (cases "j = i")
    case True
    then show ?thesis
      using remembers [OF good, of t i] refuses [OF good, of t i] assms
      by (cases "fst (try_claim t i s)") (auto simp: represents_def split: option.splits dest: spec [of _ i])
  next
    case False
    have old: "case stamp s j of
          None \<Rightarrow> (\<forall>u. (u, j) \<in> set hist \<longrightarrow> window < t - u)
        | Some u \<Rightarrow> (u, j) \<in> set hist \<and> (\<forall>u'. (u', j) \<in> set hist \<longrightarrow> u' \<le> u)"
      using assms(1) by (simp add: represents_def)
    from others [OF good False, of t] show ?thesis
    proof
      assume "stamp ?s j = stamp s j"
      then show ?thesis using old False by (auto split: option.splits)
    next
      assume "stamp ?s j = None \<and> (\<exists>u. stamp s j = Some u \<and> window < t - u)"
      then show ?thesis using old False by fastforce
    qed
  qed
  then show ?thesis using stays_good [OF good] by (simp add: represents_def)
qed

lemma claims_by_history:
  assumes "represents hist now s" "sorted (now # map fst cs)" "\<forall>(u, j) \<in> set hist. u \<le> now"
  shows "claims try_claim s cs = by_history window hist cs"
  using assms
proof (induction cs arbitrary: hist now s)
  case (Cons c cs)
  obtain t i where c: "c = (t, i)" by force
  have le: "now \<le> t" using Cons.prems(2) c by simp
  have rep: "represents hist t s" using represents_later [OF Cons.prems(1) le] .
  have past: "\<forall>(u, j) \<in> set hist. u \<le> t" using Cons.prems(3) le by fastforce
  let ?h = "if fst (try_claim t i s) then c # hist else hist"
  have "claims try_claim (snd (try_claim t i s)) cs = by_history window ?h cs"
  proof (rule Cons.IH)
    show "represents ?h t (snd (try_claim t i s))" using represents_claim [OF rep past, of i] by (simp add: c split: if_splits)
    show "sorted (t # map fst cs)" using Cons.prems(2) c by simp
    show "\<forall>(u, j) \<in> set ?h. u \<le> t" using past c by auto
  qed
  then show ?case using represents_answer [OF rep, of i] c by (simp add: Let_def case_prod_beta)
qed simp

end

subsection \<open>The code's table keeps that contract\<close>

lemma time_sub_window: "time_sub now t \<le> dedupeWindow \<longleftrightarrow> now - t \<le> dedupeWindow"
  by (auto simp: time_sub_def dedupeWindow_def int64_min_def int64_max_def)

lemma map_of_purge:
  "seen_ok s \<Longrightarrow> map_of (purge_seen now s) j =
     (case map_of s j of Some t \<Rightarrow> if time_sub now t \<le> dedupeWindow then Some t else None | None \<Rightarrow> None)"
proof (induction s)
  case (Cons x s)
  then have "fst x \<notin> fst ` set s" by (simp add: seen_ok_def)
  then have "map_of s (fst x) = None" by (simp add: map_of_eq_None_iff)
  with Cons show ?case by (cases x) (auto simp: purge_seen_def seen_ok_def not_less split: option.splits)
qed (simp add: purge_seen_def)

lemma seen_ok_purge: "seen_ok s \<Longrightarrow> seen_ok (purge_seen now s)"
  unfolding seen_ok_def purge_seen_def by (induction s) auto

lemma seen_ok_claim: "seen_ok s \<Longrightarrow> seen_ok (snd (claim now i s))"
  using seen_ok_purge [of s now]
  by (auto simp: claim_def Let_def seen_ok_def distinct_update split: option.split)

text \<open>What the table holds after the purge step, whichever way it went.\<close>

lemma purged:
  assumes "seen_ok s" "r = (if length s > dedupeMaxKeys then purge_seen now s else s)"
  shows "map_of r j = map_of s j \<or>
    (map_of r j = None \<and> (\<exists>u. map_of s j = Some u \<and> dedupeWindow < now - u))"
  using assms map_of_purge [OF assms(1), of now j]
  by (auto simp: time_sub_window not_le split: option.splits if_splits)

lemma claim_answer:
  assumes "seen_ok s"
  shows "fst (claim now i s) \<longleftrightarrow> (case map_of s i of None \<Rightarrow> True | Some u \<Rightarrow> dedupeWindow < now - u)"
proof -
  define r where "r = (if length s > dedupeMaxKeys then purge_seen now s else s)"
  have "fst (claim now i s) \<longleftrightarrow> (case map_of r i of None \<Rightarrow> True | Some u \<Rightarrow> dedupeWindow < now - u)"
    by (auto simp: claim_def r_def Let_def time_sub_window split: option.split)
  with purged [OF assms r_def, of i] show ?thesis by (auto split: option.splits)
qed

lemma claim_stamps:
  assumes "seen_ok s"
  shows "fst (claim now i s) \<Longrightarrow> map_of (snd (claim now i s)) i = Some now"
    and "\<not> fst (claim now i s) \<Longrightarrow> map_of (snd (claim now i s)) i = map_of s i"
    and "j \<noteq> i \<Longrightarrow> map_of (snd (claim now i s)) j = map_of s j \<or>
      (map_of (snd (claim now i s)) j = None \<and> (\<exists>u. map_of s j = Some u \<and> dedupeWindow < now - u))"
proof -
  define r where "r = (if length s > dedupeMaxKeys then purge_seen now s else s)"
  note p = purged [OF assms r_def]
  have c: "snd (claim now i s) = (if fst (claim now i s) then AList.update i now r else r)"
    by (auto simp: claim_def r_def Let_def split: option.split)
  show "fst (claim now i s) \<Longrightarrow> map_of (snd (claim now i s)) i = Some now"
    by (simp add: c update_conv')
  show "j \<noteq> i \<Longrightarrow> map_of (snd (claim now i s)) j = map_of s j \<or>
      (map_of (snd (claim now i s)) j = None \<and> (\<exists>u. map_of s j = Some u \<and> dedupeWindow < now - u))"
    using p [of j] by (simp add: c update_conv')
  show "map_of (snd (claim now i s)) i = map_of s i" if "\<not> fst (claim now i s)"
  proof -
    have "snd (claim now i s) = r" using that c by simp
    moreover have "\<exists>u. map_of s i = Some u \<and> \<not> dedupeWindow < now - u"
      using that claim_answer [OF assms, of now i] by (auto split: option.splits)
    ultimately show ?thesis using p [of i] by auto
  qed
qed

interpretation ids: duplicate_check claim "map_of" seen_ok dedupeWindow
proof
  fix s :: seen and t :: int and i j :: string
  assume ok: "seen_ok s"
  show "fst (claim t i s) \<longleftrightarrow> (case map_of s i of None \<Rightarrow> True | Some u \<Rightarrow> dedupeWindow < t - u)"
    by (rule claim_answer [OF ok])
  show "fst (claim t i s) \<Longrightarrow> map_of (snd (claim t i s)) i = Some t"
    "\<not> fst (claim t i s) \<Longrightarrow> map_of (snd (claim t i s)) i = map_of s i"
    "j \<noteq> i \<Longrightarrow> map_of (snd (claim t i s)) j = map_of s j \<or>
      (map_of (snd (claim t i s)) j = None \<and> (\<exists>u. map_of s j = Some u \<and> dedupeWindow < t - u))"
    by (rule claim_stamps [OF ok]; assumption)+
  show "seen_ok (snd (claim t i s))" by (rule seen_ok_claim [OF ok])
qed

subsection \<open>The size of the table\<close>

text \<open>
  Past \<^const>\<open>dedupeMaxKeys\<close> entries, only ids accepted within the window are kept.
\<close>

lemma claim_size:
  assumes "length s > dedupeMaxKeys" "seen_ok s" "map_of (snd (claim now i s)) j = Some t"
  shows "now - t \<le> dedupeWindow"
proof (cases "t = now")
  case False
  have "map_of (purge_seen now s) j = Some t"
    using assms False by (auto simp: claim_def Let_def update_conv' split: option.splits if_splits)
  then show ?thesis
    using map_of_purge [OF assms(2), of now j] by (auto simp: time_sub_window split: option.splits if_splits)
qed (simp add: dedupeWindow_def)

end
