(* ===== verification/Session.thy ===== *)
theory Session
  imports Dedupe Audit_Log Perforce Team_City
begin

text \<open>
  The command path of \<open>internal/session/session.go\<close>: \<open>New\<close>, \<open>handle\<close>,
  \<open>execute\<close> and \<open>toolVersions\<close>. The log is the sequence of \<open>Write\<close> calls the code makes
  on the logger of \<^theory_text>\<open>Audit_Log\<close>, each with its instant.
\<close>

subsection \<open>The runner\<close>

definition defaultHeartbeat :: int where "defaultHeartbeat = 25 * 10 ^ 9"
definition minHeartbeat :: int where "minHeartbeat = 5 * 10 ^ 9"
definition maxHeartbeat :: int where "maxHeartbeat = 120 * 10 ^ 9"
definition readSlack :: int where "readSlack = 2"
definition maxDeadline :: int where "maxDeadline = 60 * 10 ^ 9"
definition defaultDeadline :: int where "defaultDeadline = 15 * 10 ^ 9"
definition reasonToolError :: string where "reasonToolError = ''tool_error''"

datatype tool = TeamCityTool teamcity_client | PerforceTool perforce_config

record runner =
  rn_cfg :: config
  rn_version :: string
  rn_execs :: "string \<rightharpoonup> tool"
  rn_seen :: seen
  rn_session :: string

type_synonym audit_log = "(instant \<times> entry) list"

datatype new_error = NewSelfcheck selfcheck_error | NewTC tc_error | NewP4 string

definition New :: "tc_world \<Rightarrow> config \<Rightarrow> string \<Rightarrow> new_error + runner" where
  "New w cfg version =
     (case Selfcheck of
        Some e \<Rightarrow> Inl (NewSelfcheck e)
      | None \<Rightarrow>
          bind_result
            (if tc_enabled (teamcity cfg) then
               (case NewTeamCity w (teamcity cfg) of
                  Inl e \<Rightarrow> Inl (NewTC e)
                | Inr t \<Rightarrow> Inr [''teamcity'' \<mapsto> TeamCityTool t])
             else Inr Map.empty)
            (\<lambda>ex1.
               bind_result
                 (if p4_enabled (perforce cfg) then
                    (case NewPerforce (perforce cfg) of
                       Inl e \<Rightarrow> Inl (NewP4 e)
                     | Inr p \<Rightarrow> Inr (ex1(''perforce'' \<mapsto> PerforceTool p)))
                  else Inr ex1)
                 (\<lambda>ex2. Inr \<lparr>rn_cfg = cfg, rn_version = version, rn_execs = ex2, rn_seen = [], rn_session = []\<rparr>)))"

subsection \<open>Executing a verb\<close>

text \<open>
  The outside world of one command. What a tool call sees of it depends on the
  deadline of its context, and so does whether that deadline passed.
\<close>

record handle_env =
  he_clock :: int
  he_now :: instant
  he_elapsed_ms :: int
  he_timestamp :: string
  he_sha256 :: "string \<Rightarrow> string"
  he_number :: "string \<Rightarrow> string option"
  he_sprintf :: "detail \<Rightarrow> string"
  he_teamcity :: "int \<Rightarrow> tc_world"
  he_perforce :: "int \<Rightarrow> p4_world"
  he_expired :: "int \<Rightarrow> bool"

definition run_tool :: "handle_env \<Rightarrow> int \<Rightarrow> tool \<Rightarrow> string \<Rightarrow> argmap \<Rightarrow> int \<Rightarrow>
    exec_result \<times> effect list" where
  "run_tool w deadline t v args maxBytes =
     (case t of
        TeamCityTool c \<Rightarrow> TeamCity_Execute (he_teamcity w deadline) c v args maxBytes
      | PerforceTool c \<Rightarrow> Perforce_Execute (he_perforce w deadline) c v args maxBytes)"

text \<open>A Go map is written with its keys sorted.\<close>

definition execute :: "handle_env \<Rightarrow> int \<Rightarrow> runner \<Rightarrow> verb \<Rightarrow> argmap \<Rightarrow> int \<Rightarrow> exec_result \<times> effect list" where
  "execute w deadline r v args maxBytes =
     (if verb_name v = ''sys.ping'' then
        (ExecOK (json_object [(''pong'', ''true''), (''ts'', quote_json (he_timestamp w))]) 0 False, [])
      else if verb_name v = ''sys.version'' then
        (ExecOK (json_object [(''protocol'', quote_json Version), (''version'', quote_json (rn_version r))]) 0 False, [])
      else if verb_name v = ''sys.capabilities'' then
        (ExecOK (json_object
          [(''tools'', json_object (map (apsnd json_bool) (Tools (rn_cfg r)))),
           (''verbs'', json_strings CompiledVerbs)]) 0 False, [])
      else (case rn_execs r (verb_tool v) of
              None \<Rightarrow> (ExecErr ErrNotConfigured 0 False, [])
            | Some t \<Rightarrow> run_tool w deadline t (verb_name v) args maxBytes))"

definition toolVersions :: "tc_world \<Rightarrow> runner \<Rightarrow> (string \<times> string) list" where
  "toolVersions w r =
     (case rn_execs r ''teamcity'' of
        Some (TeamCityTool c) \<Rightarrow>
          let v = TeamCity_Version w c in if v \<noteq> [] then [(''teamcity'', v)] else []
      | _ \<Rightarrow> [])"

subsection \<open>The command path\<close>

text \<open>A duration is an \<open>int64\<close> of nanoseconds: the product can wrap.\<close>

definition command_deadline :: "int \<Rightarrow> int" where
  "command_deadline ms =
     (let d = int64 (ms * 10 ^ 6);
          d = (if d \<le> 0 then defaultDeadline else d)
      in if d > maxDeadline then maxDeadline else d)"

definition command_max_bytes :: "verb \<Rightarrow> int \<Rightarrow> int" where
  "command_max_bytes v b = (if b \<le> 0 \<or> b > default_max_bytes v then default_max_bytes v else b)"

definition command_entry :: "handle_env \<Rightarrow> string \<Rightarrow> command \<Rightarrow> result_frame \<Rightarrow> string \<Rightarrow> entry" where
  "command_entry w session cmd res detail = (zero_entry ''command'')
     \<lparr>e_session := session, e_command := cmd_id cmd, e_verb := cmd_verb cmd,
      e_args_sha := ArgsDigest (he_sha256 w) (he_number w) (cmd_args cmd),
      e_status := res_status res, e_reason := res_reason res, e_detail := detail,
      e_bytes_out := res_bytes res, e_truncated := res_truncated res,
      e_duration_ms := he_elapsed_ms w\<rparr>"

datatype job = Job verb argmap int int

text \<open>
  The first half, up to the deadline and the byte limit: a result with its local
  detail, or the call to make. The table of ids may change; nothing else does.
\<close>

definition admit :: "handle_env \<Rightarrow> command \<Rightarrow> runner \<Rightarrow> ((result_frame \<times> string) + job) \<times> runner" where
  "admit w cmd r =
     (if cmd_id cmd = [] then
        (Inl (Deny [] (reason_token ReasonMalformedArgs), ''command has no id''), r)
      else (let (ok, s) = claim (he_clock w) (cmd_id cmd) (rn_seen r); r' = r\<lparr>rn_seen := s\<rparr>
            in if \<not> ok then (Inl (Deny (cmd_id cmd) (reason_token ReasonDuplicateCommandID), []), r')
               else (case Resolve (cmd_verb cmd) (cmd_args cmd) (cfg_scopes (rn_cfg r)) (tool_enabled (rn_cfg r)) of
                       Inl e \<Rightarrow> (Inl (Deny (cmd_id cmd) (reason_token (deny_reason e)), he_sprintf w (deny_detail e)), r')
                     | Inr (v, args) \<Rightarrow>
                         (Inr (Job v args (command_deadline (cmd_deadline_ms cmd))
                                 (command_max_bytes v (cmd_max_bytes cmd))), r'))))"

text \<open>The second half: the call, and what its outcome is reported as.\<close>

definition settle :: "handle_env \<Rightarrow> runner \<Rightarrow> command \<Rightarrow> job \<Rightarrow> result_frame \<times> string" where
  "settle w r cmd j =
     (case j of Job v args deadline maxBytes \<Rightarrow>
        let x = fst (execute w deadline r v args maxBytes)
        in if he_expired w deadline then
             (\<lparr>res_type = TypeResult, res_id = cmd_id cmd, res_status = StatusTimeout,
               res_reason = reason_token ReasonDeadlineExceeded, res_body = None,
               res_truncated = False, res_bytes = 0\<rparr>, [])
           else (case x of
                   ExecErr e n tr \<Rightarrow> (Errorf (cmd_id cmd) reasonToolError, e)
                 | ExecOK t n tr \<Rightarrow> (OK (cmd_id cmd) (Some t) n tr, [])))"

definition finish :: "handle_env \<Rightarrow> string \<Rightarrow> command \<Rightarrow> result_frame \<times> string \<Rightarrow> audit_log \<Rightarrow> result_frame \<times> audit_log" where
  "finish w session cmd x lg = (fst x, lg @ [(he_now w, command_entry w session cmd (fst x) (snd x))])"

text \<open>What that call did outside the daemon.\<close>

definition job_effects :: "handle_env \<Rightarrow> runner \<Rightarrow> job \<Rightarrow> effect list" where
  "job_effects w r j =
     (case j of Job v args deadline maxBytes \<Rightarrow> snd (execute w deadline r v args maxBytes))"

definition handle :: "handle_env \<Rightarrow> command \<Rightarrow> runner \<Rightarrow> audit_log \<Rightarrow>
    result_frame \<times> runner \<times> audit_log \<times> effect list" where
  "handle w cmd r lg =
     (let session = rn_session r
      in case admit w cmd r of
           (Inl x, r') \<Rightarrow> let (res, lg') = finish w session cmd x lg in (res, r', lg', [])
         | (Inr j, r') \<Rightarrow>
             let (res, lg') = finish w session cmd (settle w r' cmd j) lg in (res, r', lg', job_effects w r' j))"

subsection \<open>Facts\<close>

lemma command_deadline_bounds: "0 < command_deadline ms \<and> command_deadline ms \<le> maxDeadline"
  by (simp add: command_deadline_def Let_def maxDeadline_def defaultDeadline_def)

lemma admit_cong:
  "he_clock w' = he_clock w \<Longrightarrow> he_sprintf w' = he_sprintf w \<Longrightarrow> admit w' cmd r = admit w cmd r"
  by (simp only: admit_def)

lemma command_entry_cong:
  assumes "he_sha256 w' = he_sha256 w" "he_number w' = he_number w" "he_elapsed_ms w' = he_elapsed_ms w"
  shows "command_entry w' = command_entry w"
  by (intro ext) (simp only: command_entry_def assms)

lemma admit_frame: "snd (admit w cmd r) = r\<lparr>rn_seen := rn_seen (snd (admit w cmd r))\<rparr>"
  by (auto simp: admit_def Let_def split: prod.splits sum.splits)

lemma admit_keeps:
  "rn_cfg (snd (admit w cmd r)) = rn_cfg r" "rn_execs (snd (admit w cmd r)) = rn_execs r"
  "rn_version (snd (admit w cmd r)) = rn_version r"
  and admit_session: "rn_session (snd (admit w cmd r)) = rn_session r"
  by (subst admit_frame, simp)+

lemma admit_InlD:
  assumes "admit w cmd r = (Inl (res, d), r')"
  shows "\<exists>q. res = Deny (cmd_id cmd) (reason_token q)"
  using assms unfolding admit_def Let_def by (auto simp del: reason_token.simps split: if_splits prod.splits sum.splits)

lemma admit_InrD:
  assumes "admit w cmd r = (Inr (Job v args d b), r')"
  shows "Resolve (cmd_verb cmd) (cmd_args cmd) (cfg_scopes (rn_cfg r)) (tool_enabled (rn_cfg r)) = Inr (v, args)"
    and "cmd_id cmd \<noteq> []" "claim (he_clock w) (cmd_id cmd) (rn_seen r) = (True, rn_seen r')"
    and "d = command_deadline (cmd_deadline_ms cmd)" "b = command_max_bytes v (cmd_max_bytes cmd)"
  using assms by (auto simp: admit_def Let_def split: if_splits prod.splits sum.splits)

lemma settle_id: "res_id (fst (settle w r cmd j)) = cmd_id cmd"
  by (cases j) (auto simp: settle_def Let_def Errorf_def OK_def split: exec_result.split)

lemma handle_cases:
  obtains (refused) res d r' where "admit w cmd r = (Inl (res, d), r')"
    "handle w cmd r lg = (res, r', lg @ [(he_now w, command_entry w (rn_session r) cmd res d)], [])"
  | (admitted) v args d b r' x where "admit w cmd r = (Inr (Job v args d b), r')"
    "x = settle w r' cmd (Job v args d b)"
    "handle w cmd r lg = (fst x, r', lg @ [(he_now w, command_entry w (rn_session r) cmd (fst x) (snd x))],
       snd (execute w d r' v args b))"
proof -
  obtain y r' where y: "admit w cmd r = (y, r')" by force
  show thesis
  proof (cases y)
    case (Inl x)
    then show thesis using y refused [of "fst x" "snd x" r'] by (simp add: handle_def finish_def)
  next
    case (Inr j)
    then show thesis using y admitted by (cases j) (simp add: handle_def finish_def job_effects_def)
  qed
qed

text \<open>
  What the session takes from its executors through their interface: one process or
  request at most for a command, and bodies that are printable text.
\<close>

lemma execute_one_effect: "length (snd (execute w d r v args b)) \<le> 1"
  using p4.one_effect tc.one_effect
  by (simp add: execute_def run_tool_def split: option.split tool.split)

lemma execute_printable:
  assumes "fst (execute w d r v args b) = ExecOK t n tr"
  shows "printable t"
proof -
  have tool: "printable t" if "fst (run_tool w d x (verb_name v) args b) = ExecOK t n tr" for x
    using that p4.body_printable tc.body_printable by (cases x) (simp_all add: run_tool_def)
  have "printable (json_object (map (apsnd json_bool) ts))" for ts :: "(string \<times> bool) list"
    by (rule printable_json_object) (auto simp: list_all_iff printable_texts)
  moreover have "printable (json_strings ss)" for ss
    unfolding json_strings_def by (rule printable_json_array) (simp add: list_all_iff printable_quote_json)
  ultimately have sys: "printable (json_object [(''pong'', ''true''), (''ts'', quote_json x)])"
    "printable (json_object [(''protocol'', quote_json x), (''version'', quote_json y)])"
    "printable (json_object [(''tools'', json_object (map (apsnd json_bool) ts)), (''verbs'', json_strings ss)])"
    for x y ss and ts :: "(string \<times> bool) list"
    by (auto intro!: printable_json_object simp: printable_quote_json printable_Cons)
  show ?thesis using assms sys tool
    by (auto simp: execute_def split: if_splits option.splits)
qed

lemma handle_effects:
  assumes "handle w cmd r lg = (res, r', lg', fx)"
  shows "length fx \<le> 1" "res_type res = TypeResult"
    and "case res_body res of None \<Rightarrow> True | Some t \<Rightarrow> printable t"
proof -
  have "length fx \<le> 1 \<and> res_type res = TypeResult \<and> (case res_body res of None \<Rightarrow> True | Some t \<Rightarrow> printable t)"
  proof (cases rule: handle_cases [of w cmd r lg])
    case (refused res1 d r1)
    then show ?thesis using assms admit_InlD [OF refused(1)] by (auto simp: Deny_def)
  next
    case (admitted v args d b r1 x)
    then show ?thesis using assms execute_one_effect execute_printable
      by (auto simp: settle_def Let_def Errorf_def OK_def split: exec_result.splits if_splits)
  qed
  then show "length fx \<le> 1" "res_type res = TypeResult"
    "case res_body res of None \<Rightarrow> True | Some t \<Rightarrow> printable t" by blast+
qed

text \<open>What a command does outside is what the execution of its resolved verb does, or nothing.\<close>

lemma handle_effect_source:
  assumes "handle w cmd r lg = (res, r', lg', fx)" "fx \<noteq> []"
  shows "\<exists>v m. Resolve (cmd_verb cmd) (cmd_args cmd) (cfg_scopes (rn_cfg r)) (tool_enabled (rn_cfg r)) = Inr (v, m) \<and>
    fx = snd (execute w (command_deadline (cmd_deadline_ms cmd)) r v m (command_max_bytes v (cmd_max_bytes cmd)))"
proof (cases rule: handle_cases [of w cmd r lg])
  case (refused res1 d r1)
  then show ?thesis using assms by simp
next
  case (admitted v args d b r1 x)
  note a = admit_InrD [OF admitted(1)]
  have "execute w d r1 v args b = execute w d r v args b"
    using admit_keeps [of w cmd r] admitted(1) by (simp add: execute_def)
  then show ?thesis using a(1,4,5) admitted(3) assms(1) by auto
qed

lemma settle_printable:
  "case res_body (fst (settle w r cmd j)) of None \<Rightarrow> True | Some t \<Rightarrow> printable t"
  using execute_printable
  by (cases j) (auto simp: settle_def Let_def Errorf_def OK_def split: exec_result.split)

text \<open>The tools decide the outcome only through the one call of an accepted command.\<close>

lemma execute_admitted:
  "admit w cmd r = (y, r1) \<Longrightarrow> execute w' d r1 v args b = execute w' d r v args b"
  using admit_keeps [of w cmd r] by (simp add: execute_def)

lemma handle_tools_cong:
  assumes "\<And>v args d b r1. admit w cmd r = (Inr (Job v args d b), r1) \<Longrightarrow>
      execute (w\<lparr>he_teamcity := f, he_perforce := g\<rparr>) d r v args b = execute w d r v args b"
  shows "handle (w\<lparr>he_teamcity := f, he_perforce := g\<rparr>) cmd r lg = handle w cmd r lg"
proof -
  let ?w = "w\<lparr>he_teamcity := f, he_perforce := g\<rparr>"
  have adm: "admit ?w cmd r = admit w cmd r" by (rule admit_cong; simp)
  have ent: "command_entry ?w = command_entry w" by (rule command_entry_cong; simp)
  obtain y r1 where Pair: "admit w cmd r = (y, r1)" by force
  show ?thesis
  proof (cases y)
    case (Inl x)
    then show ?thesis by (simp add: handle_def finish_def adm ent Pair)
  next
    case (Inr j)
    obtain v args d b where j: "j = Job v args d b" by (cases j)
    have "execute ?w d r1 v args b = execute w d r1 v args b"
      using assms [OF Pair [unfolded Inr j]] by (simp add: execute_admitted [OF Pair])
    then have "settle ?w r1 cmd j = settle w r1 cmd j" "job_effects ?w r1 j = job_effects w r1 j"
      by (simp_all add: settle_def job_effects_def j)
    then show ?thesis by (simp add: handle_def finish_def adm ent Pair Inr)
  qed
qed

text \<open>What \<^const>\<open>New\<close> builds: an executor for each tool that is enabled, and for no other.\<close>

lemma New_InrD:
  assumes "New w cfg ver = Inr r"
  shows "rn_cfg r = cfg" "rn_seen r = []" "rn_version r = ver"
    and "rn_execs r ''perforce'' = (if p4_enabled (perforce cfg) then Some (PerforceTool (perforce cfg)) else None)"
    and "\<exists>t. rn_execs r ''teamcity'' = (if tc_enabled (teamcity cfg) then Some (TeamCityTool t) else None)"
    and "tool \<noteq> ''perforce'' \<Longrightarrow> tool \<noteq> ''teamcity'' \<Longrightarrow> rn_execs r tool = None"
  using assms
  by (auto simp: New_def bind_result_def NewPerforce_def split: option.splits sum.splits if_splits)

end
