(* ===== verification/Session_Properties.thy ===== *)
theory Session_Properties
  imports Session Perforce_Properties Audit_Properties Config_Properties
begin

text \<open>
  What the command path promises: one audit line per command, a result that carries
  only stable tokens to the broker, no tool call on a denial, an executor for every
  accepted command, and no process beyond the validated ones.
\<close>

subsection \<open>Duplicates\<close>

text \<open>C12. The duplicate table refines the full history: for claims in the order of the
  clock, the answers of \<open>claim\<close>, which forgets entries when its table is full, are those
  of a check that remembers every acceptance and refuses an id accepted within the
  last ten minutes.\<close>

theorem claim_refines_history:
  assumes "sorted (map fst cs)"
  shows "claims claim [] cs = by_history dedupeWindow [] cs"
proof (cases cs)
  case (Cons c cs')
  show ?thesis
  proof (rule ids.claims_by_history)
    show "ids.represents [] (fst c) []" by (simp add: ids.represents_def seen_ok_def)
    show "sorted (fst c # map fst cs)" using assms Cons by simp
  qed simp
qed simp

theorem claim_refines_history_witness:
  "claims claim [] [(0, ''a''), (5, ''a''), (6, ''b''), (dedupeWindow, ''a''), (dedupeWindow + 1, ''a'')]
   = [True, False, True, False, True]"
proof -
  have "sorted (map fst [(0, ''a''), (5, ''a''), (6, ''b''), (dedupeWindow, ''a''), (dedupeWindow + 1, ''a'')])"
    by (simp add: dedupeWindow_def)
  from claim_refines_history [OF this] show ?thesis
    by (simp add: Let_def allowed_def dedupeWindow_def)
qed

subsection \<open>Deadlines\<close>

text \<open>C38. The deadline of a command is always positive and at most 60 seconds, and its byte
  limit never above the verb's default. As long as the milliseconds fit a duration the
  deadline is what was asked for, cut at 60 seconds, or the default for a number that
  is not positive. A larger number wraps: 9223372036855 ms, the first beyond the
  range, gets the 15 second default instead of the 60 second cap.\<close>

theorem command_limits:
  "0 < command_deadline ms \<and> command_deadline ms \<le> maxDeadline \<and>
    command_max_bytes v b \<le> default_max_bytes v \<and>
    (in_int64 (ms * 10 ^ 6) \<longrightarrow>
      command_deadline ms = (if ms \<le> 0 then defaultDeadline else min (ms * 10 ^ 6) maxDeadline)) \<and>
    \<not> in_int64 (9223372036855 * 10 ^ 6) \<and> command_deadline 9223372036855 = defaultDeadline"
proof -
  have "command_deadline 9223372036855 = defaultDeadline" by code_simp
  moreover have "\<not> in_int64 (9223372036855 * 10 ^ 6)" by (simp add: in_int64_def int64_max_def)
  moreover have "command_deadline ms = (if ms \<le> 0 then defaultDeadline else min (ms * 10 ^ 6) maxDeadline)"
    if "in_int64 (ms * 10 ^ 6)"
    using int64_id [OF that]
    by (simp add: command_deadline_def Let_def min_def maxDeadline_def defaultDeadline_def)
  ultimately show ?thesis using command_deadline_bounds [of ms] by (auto simp: command_max_bytes_def)
qed

theorem command_limits_witness: "command_deadline 500 = 500 * 10 ^ 6"
  using command_limits [of 500 build_verb 0]
  by (simp add: in_int64_def int64_min_def int64_max_def maxDeadline_def)

subsection \<open>The audit line\<close>

text \<open>C11. Every command leaves exactly one audit entry, whatever its outcome: the entry
  carries the session, the command's id and verb, the digest of its arguments and the
  status, reason, size and truncation flag of the very result sent; the result answers
  the command's id. On the mirror the entry is one more line.\<close>

theorem command_audited:
  assumes "handle w cmd r lg = (res, r', lg', fx)"
  shows "\<exists>d. lg' = lg @ [(he_now w, command_entry w (rn_session r) cmd res d)] \<and>
    res_id res = cmd_id cmd \<and> res_type res = TypeResult \<and> rn_session r' = rn_session r \<and>
    (lg_mirror (fst s) \<longrightarrow>
      mirrored (snd (fold (put_at os) lg' s)) = mirrored (snd (fold (put_at os) lg s)) @
        line_at (he_now w, command_entry w (rn_session r) cmd res d) @ [CHR 0x0A])"
proof -
  have "\<exists>d. lg' = lg @ [(he_now w, command_entry w (rn_session r) cmd res d)] \<and>
    res_id res = cmd_id cmd \<and> res_type res = TypeResult \<and> rn_session r' = rn_session r"
  proof (cases rule: handle_cases [of w cmd r lg])
    case (refused res1 d r1)
    moreover obtain q where "res1 = Deny (cmd_id cmd) (reason_token q)" using admit_InlD [OF refused(1)] by blast
    moreover have "rn_session r1 = rn_session r" using admit_session refused(1) by (metis snd_conv)
    ultimately show ?thesis using assms by (intro exI [of _ d]) (simp add: Deny_def)
  next
    case (admitted v args d b r1 x)
    moreover have "rn_session r1 = rn_session r" using admit_session admitted(1) by (metis snd_conv)
    moreover have "res_type (fst x) = TypeResult"
      using admitted(2) by (auto simp: settle_def Let_def Errorf_def OK_def split: exec_result.split)
    ultimately show ?thesis using assms settle_id by (intro exI [of _ "snd x"]) simp
  qed
  moreover have "mirrored (snd (fold (put_at os) (lg @ [x]) s)) =
      mirrored (snd (fold (put_at os) lg s)) @ line_at x @ [CHR 0x0A]" if "lg_mirror (fst s)" for x
    using mirror.fold_appends [OF that, of os lg] mirror.fold_appends [OF that, of os "lg @ [x]"] by simp
  ultimately show ?thesis by blast
qed

subsection \<open>What a result tells the broker\<close>

text \<open>Every frame a failed command can be answered with.\<close>

definition failure_frames :: "string \<Rightarrow> result_frame list" where
  "failure_frames i =
     map (\<lambda>q. Deny i (reason_token q)) enum_class.enum @
     [(Deny i (reason_token ReasonDeadlineExceeded))\<lparr>res_status := StatusTimeout\<rparr>, Errorf i reasonToolError]"

text \<open>C10. A failed command is answered with one of seventeen frames fixed by its id: the
  fifteen denials, the timeout and the tool error. So nothing of what a tool printed, of
  the configuration or of the arguments reaches the broker unless the command
  succeeded; a success carries a body and no reason.\<close>

theorem failure_is_one_of_seventeen:
  assumes "handle w cmd r lg = (res, r', lg', fx)"
  shows "length (failure_frames (cmd_id cmd)) = 17 \<and>
    (if res_status res = StatusOK then res_reason res = [] \<and> res_body res \<noteq> None
     else res \<in> set (failure_frames (cmd_id cmd)))"
proof -
  have all: "q \<in> set enum_class.enum" for q :: deny_reason
    by (cases q) (simp_all add: enum_deny_reason_def)
  have st: "StatusDenied \<noteq> StatusOK" "StatusTimeout \<noteq> StatusOK" "StatusError \<noteq> StatusOK"
    by (simp_all add: token_defs)
  have "length (failure_frames (cmd_id cmd)) = 17"
    by (simp add: failure_frames_def enum_deny_reason_def)
  moreover have "if res_status res = StatusOK then res_reason res = [] \<and> res_body res \<noteq> None
     else res \<in> set (failure_frames (cmd_id cmd))"
  proof (cases rule: handle_cases [of w cmd r lg])
    case (refused res1 d r1)
    then obtain q where "res = Deny (cmd_id cmd) (reason_token q)"
      using admit_InlD [OF refused(1)] assms by auto
    then show ?thesis using st all [of q] by (auto simp: failure_frames_def Deny_def)
  next
    case (admitted v args d b r1 x)
    then have "res = fst (settle w r1 cmd (Job v args d b))" using assms by simp
    then show ?thesis using st
      by (auto simp: settle_def Let_def failure_frames_def Deny_def OK_def Errorf_def split: exec_result.split)
  qed
  ultimately show ?thesis by blast
qed

subsection \<open>Every accepted command has its executor\<close>

lemma live_tools:
  assumes "v \<in> set Vocabulary" "compiled v"
  shows "verb_name v \<in> {''sys.ping'', ''sys.version'', ''sys.capabilities''} \<or>
    (verb_tool v = ''teamcity'' \<and> verb_name v \<in> {''teamcity.server.info'', ''teamcity.build.get''}) \<or>
    (verb_tool v = ''perforce'' \<and> verb_name v \<in> {''p4.describe'', ''p4.changes''})"
proof -
  have "list_all (\<lambda>v. verb_name v \<in> {''sys.ping'', ''sys.version'', ''sys.capabilities''} \<or>
    (verb_tool v = ''teamcity'' \<and> verb_name v \<in> {''teamcity.server.info'', ''teamcity.build.get''}) \<or>
    (verb_tool v = ''perforce'' \<and> verb_name v \<in> {''p4.describe'', ''p4.changes''}))
      (filter compiled Vocabulary)"
    by (simp add: table_defs)
  then show ?thesis using assms by (auto simp: list_all_iff)
qed

lemma tool_enabled_iff:
  "tool_enabled c t \<longleftrightarrow> (t = ''perforce'' \<and> p4_enabled (perforce c)) \<or> (t = ''teamcity'' \<and> tc_enabled (teamcity c))"
  by (auto simp: tool_enabled_def Tools_def)

text \<open>C13. The allowlist and the executors agree: on a runner that \<open>New\<close> built, a command
  that \<open>Resolve\<close> accepts is either one of the three \<open>sys\<close> verbs, which always succeed,
  or goes to the executor of its own tool, one of that executor's own verbs; never to
  the \<open>not configured\<close> error and never to another tool.\<close>

theorem accepted_command_dispatched:
  assumes "New tw cfg ver = Inr r"
    and "Resolve name raw (cfg_scopes cfg) (tool_enabled cfg) = Inr (v, m)"
  shows "(verb_tool v = ''teamcity'' \<and> name \<in> {''teamcity.server.info'', ''teamcity.build.get''} \<and>
      (\<exists>t. rn_execs r ''teamcity'' = Some (TeamCityTool t) \<and>
        execute w d r v m b = TeamCity_Execute (he_teamcity w d) t name m b)) \<or>
    (verb_tool v = ''perforce'' \<and> name \<in> {''p4.describe'', ''p4.changes''} \<and>
      execute w d r v m b = Perforce_Execute (he_perforce w d) (perforce cfg) name m b) \<or>
    (name \<in> {''sys.ping'', ''sys.version'', ''sys.capabilities''} \<and> (\<exists>t. execute w d r v m b = (ExecOK t 0 False, [])))"
proof -
  from assms(2) have v: "v \<in> set Vocabulary" "compiled v" "verb_name v = name"
    and en: "verb_tool v = [] \<or> tool_enabled cfg (verb_tool v)" by (rule Resolve_InrD, simp)+
  note new = New_InrD [OF assms(1)]
  from live_tools [OF v(1,2)] v(3) consider
      "name \<in> {''sys.ping'', ''sys.version'', ''sys.capabilities''}"
    | "verb_tool v = ''teamcity''" "name \<in> {''teamcity.server.info'', ''teamcity.build.get''}"
    | "verb_tool v = ''perforce''" "name \<in> {''p4.describe'', ''p4.changes''}" by auto
  then show ?thesis
  proof cases
    case 1
    then show ?thesis using v(3) by (auto simp: execute_def)
  next
    case 2
    then have "tc_enabled (teamcity cfg)" using en by (simp add: tool_enabled_iff)
    then obtain t where "rn_execs r ''teamcity'' = Some (TeamCityTool t)" using new(5) by auto
    moreover have "name \<notin> {''sys.ping'', ''sys.version'', ''sys.capabilities''}" using 2(2) by auto
    ultimately show ?thesis using 2 v(3) by (intro disjI1) (simp add: execute_def run_tool_def)
  next
    case 3
    then have "p4_enabled (perforce cfg)" using en by (simp add: tool_enabled_iff)
    moreover have "name \<notin> {''sys.ping'', ''sys.version'', ''sys.capabilities''}" using 3(2) by auto
    ultimately show ?thesis using 3 v(3) new(4) by (intro disjI2 disjI1) (simp add: execute_def run_tool_def)
  qed
qed

subsection \<open>From the configuration file to the process table\<close>

text \<open>A p4 command line with its path held to a configured scope, as \<^const>\<open>path_within\<close> says.\<close>

definition scoped_p4_args :: "(string \<Rightarrow> string \<Rightarrow> bool) \<Rightarrow> scopes \<Rightarrow> string list \<Rightarrow> bool" where
  "scoped_p4_args matches sc args \<longleftrightarrow>
     (\<exists>ch. args = [''describe'', ''-s'', Itoa ch] \<and> 1 \<le> ch \<and> ch \<le> 2 ^ 40) \<or>
     (\<exists>k p. args = [''changes'', ''-m'', Itoa k, p] \<and> 1 \<le> k \<and> k \<le> 200 \<and> HasPrefix p ''//'' \<and>
       (\<exists>q \<in> set (depot_scope sc). path_within matches q p))"

lemma safe_args_scoped:
  assumes "Load lw path = Inr cfg" "p4_enabled (perforce cfg)" "literal_matching matches"
    "safe_p4_args (cfg_scopes cfg) args"
  shows "scoped_p4_args matches (cfg_scopes cfg) args"
proof -
  from assms(1) obtain c1 where "Validate (env_url lw) c1 = Inr cfg" by (rule Load_InrD)
  then have "scopes_ready cfg" using Validate_InrD validate_perforce_InrD by blast
  with assms(2) have "perforce_ready cfg" by (simp add: perforce_ready_def)
  note contained = loaded.path_contained [OF this _ assms(3)]
  from assms(4) show ?thesis unfolding safe_p4_args_def scoped_p4_args_def
  proof (elim disjE exE conjE, goal_cases)
    case (2 k p)
    then have "HasPrefix p ''//''" by (simp add: path_ok_def)
    with 2 contained [OF 2(4)] show ?case by blast
  qed blast
qed

text \<open>A process is the world's only through \<^const>\<open>he_perforce\<close>.\<close>

definition with_process :: "(int \<Rightarrow> string \<Rightarrow> string list \<Rightarrow> string list \<Rightarrow> int \<Rightarrow> string list \<times> string \<times> string option) \<Rightarrow>
    handle_env \<Rightarrow> handle_env" where
  "with_process f w = w\<lparr>he_perforce := \<lambda>d. (he_perforce w d)\<lparr>process := f d\<rparr>\<rparr>"

lemma handle_process_cong:
  assumes "\<And>v args d b r1. admit w cmd r = (Inr (Job v args d b), r1) \<Longrightarrow>
      execute (with_process f w) d r v args b = execute w d r v args b"
  shows "handle (with_process f w) cmd r lg = handle w cmd r lg"
  using handle_tools_cong [where cmd = cmd and r = r and w = w and lg = lg and f = "he_teamcity w"
      and g = "\<lambda>d. (he_perforce w d)\<lparr>process := f d\<rparr>"] assms
  by (simp add: with_process_def)

lemma TeamCity_no_process: "RunProcess b a e t \<notin> set (snd (TeamCity_Execute w c v m mb))"
  by (simp add: TeamCity_Execute_def tc_get_effect sent_request_def)

lemma execute_other_tool:
  assumes "New tw cfg ver = Inr r0" "rn_execs r = rn_execs r0" "verb_tool v \<noteq> ''perforce''"
  shows "execute (with_process f w) d r v m b = execute w d r v m b"
    and "RunProcess x a e t \<notin> set (snd (execute w d r v m b))"
proof -
  have tool: "\<exists>c. t = TeamCityTool c" if "rn_execs r (verb_tool v) = Some t" for t
    using that assms(3) New_InrD(5,6) [OF assms(1)] assms(2)
    by (cases "verb_tool v = ''teamcity''") (auto split: if_splits)
  show "execute (with_process f w) d r v m b = execute w d r v m b"
    using tool by (cases "rn_execs r (verb_tool v)") (auto simp: execute_def run_tool_def with_process_def)
  show "RunProcess x a e t \<notin> set (snd (execute w d r v m b))"
    using tool TeamCity_no_process
    by (cases "rn_execs r (verb_tool v)") (auto simp: execute_def run_tool_def)
qed

lemma execute_p4:
  assumes "New tw cfg ver = Inr r0" "rn_execs r = rn_execs r0" "p4_enabled (perforce cfg)"
    and "Resolve name raw sc tools = Inr (v, m)" "verb_tool v = ''perforce''"
  shows "execute w d r v m b = Perforce_Execute (he_perforce w d) (perforce cfg) (verb_name v) m b"
proof -
  from assms(4) have "v \<in> set Vocabulary" "compiled v" by (rule Resolve_InrD, simp)+
  from perforce_verbs_live [OF this assms(5)] show ?thesis
    using assms(2,3,5) New_InrD(4) [OF assms(1)]
    by (auto simp: execute_def run_tool_def describe_verb_def changes_verb_def zero_verb_def)
qed

text \<open>C1. End to end, from the file on disk to the processes that are run: with a
  configuration that loaded and the runner built from it, a command of any bytes
  whatever runs at most one process, once, or sends one request. The process is the
  configured p4 binary with the configured port, user, environment and time limit,
  and either \<open>describe -s\<close> of a change number (so never file contents), or
  \<open>changes -m\<close> of one path held to a configured scope: all it matches begins with the
  scope's root and lies under the scope's directory, unless the path is the bare root
  or the root with a wildcard glued to it (C8, C19). The outcome depends on no other
  process.\<close>

theorem one_scoped_process:
  assumes "Load lw path = Inr cfg" "New tw cfg ver = Inr r0"
    and "rn_cfg r = cfg" "rn_execs r = rn_execs r0" "literal_matching matches"
    and "handle w cmd r lg = (res, r', lg', fx)" "D = command_deadline (cmd_deadline_ms cmd)"
  shows "length fx \<le> 1 \<and>
    (\<forall>b a e t. RunProcess b a e t \<in> set fx \<longrightarrow>
       b = p4_binary (perforce cfg) \<and> t = p4_timeout (perforce cfg) \<and>
       e = p4_env (he_perforce w D) (perforce cfg) \<and>
       (\<exists>args. a = p4_argv (perforce cfg) args \<and> scoped_p4_args matches (cfg_scopes cfg) args)) \<and>
    (\<forall>f. (\<forall>b a e t. RunProcess b a e t \<in> set fx \<longrightarrow> f D b a e t = process (he_perforce w D) b a e t) \<longrightarrow>
       handle (with_process f w) cmd r lg = (res, r', lg', fx))"
proof -
  have one: "length fx \<le> 1" by (rule handle_effects(1) [OF assms(6)])
  let ?res = "\<lambda>v m. Resolve (cmd_verb cmd) (cmd_args cmd) (cfg_scopes cfg) (tool_enabled cfg) = Inr (v, m)"
  let ?ok = "\<lambda>b a e t. b = p4_binary (perforce cfg) \<and> t = p4_timeout (perforce cfg) \<and>
       e = p4_env (he_perforce w D) (perforce cfg) \<and>
       (\<exists>args. a = p4_argv (perforce cfg) args \<and> scoped_p4_args matches (cfg_scopes cfg) args)"
  have "(\<forall>b a e t. RunProcess b a e t \<in> set (snd (execute w D r v m mb)) \<longrightarrow> ?ok b a e t) \<and>
      (\<forall>f. (\<forall>b a e t. RunProcess b a e t \<in> set (snd (execute w D r v m mb)) \<longrightarrow>
          f D b a e t = process (he_perforce w D) b a e t) \<longrightarrow>
        execute (with_process f w) D r v m mb = execute w D r v m mb)" if "?res v m" for v m mb
  proof (cases "verb_tool v = ''perforce''")
    case False
    then show ?thesis using execute_other_tool [OF assms(2,4)] by blast
  next
    case True
    from that have "verb_tool v = [] \<or> tool_enabled cfg (verb_tool v)" by (rule Resolve_InrD) simp
    then have p4: "p4_enabled (perforce cfg)" using True by (simp add: tool_enabled_iff)
    note ex = execute_p4 [OF assms(2,4) p4 that True]
    from perforce_command_line [OF that True, where c = "perforce cfg" and w = "he_perforce w D"] obtain args where
      args: "safe_p4_args (cfg_scopes cfg) args" and
      fx: "snd (execute w D r v m mb) = [RunProcess (p4_binary (perforce cfg)) (p4_argv (perforce cfg) args)
          (p4_env (he_perforce w D) (perforce cfg)) (p4_timeout (perforce cfg))]" and
      local: "\<forall>f. f (p4_binary (perforce cfg)) (p4_argv (perforce cfg) args)
            (p4_env (he_perforce w D) (perforce cfg)) (p4_timeout (perforce cfg)) =
          process (he_perforce w D) (p4_binary (perforce cfg)) (p4_argv (perforce cfg) args)
            (p4_env (he_perforce w D) (perforce cfg)) (p4_timeout (perforce cfg)) \<longrightarrow>
        (\<forall>mb. Perforce_Execute ((he_perforce w D)\<lparr>process := f\<rparr>) (perforce cfg) (verb_name v) m mb =
          Perforce_Execute (he_perforce w D) (perforce cfg) (verb_name v) m mb)"
      unfolding ex by blast
    have "scoped_p4_args matches (cfg_scopes cfg) args" by (rule safe_args_scoped [OF assms(1) p4 assms(5) args])
    then have "?ok b a e t" if "RunProcess b a e t \<in> set (snd (execute w D r v m mb))" for b a e t
      using that unfolding fx by auto
    moreover have "execute (with_process f w) D r v m mb = execute w D r v m mb"
      if "\<forall>b a e t. RunProcess b a e t \<in> set (snd (execute w D r v m mb)) \<longrightarrow>
          f D b a e t = process (he_perforce w D) b a e t" for f
      using that local [THEN spec, of "f D"] unfolding fx by (simp add: ex) (simp add: with_process_def)
    ultimately show ?thesis by blast
  qed
  note ex = this
  have "?ok b a e t" if "RunProcess b a e t \<in> set fx" for b a e t
    using handle_effect_source [OF assms(6)] that ex assms(3,7) by (metis empty_iff list.set(1))
  moreover have "handle (with_process f w) cmd r lg = handle w cmd r lg"
    if f: "\<forall>b a e t. RunProcess b a e t \<in> set fx \<longrightarrow> f D b a e t = process (he_perforce w D) b a e t" for f
  proof (rule handle_process_cong)
    fix v m d mb r1
    assume adm: "admit w cmd r = (Inr (Job v m d mb), r1)"
    note a = admit_InrD [OF adm]
    have "fx = snd (execute w D r v m mb)"
      using assms(6) adm a(4) execute_admitted [OF adm] assms(7)
      by (simp add: handle_def finish_def job_effects_def)
    then show "execute (with_process f w) d r v m mb = execute w d r v m mb"
      using f ex a(1,4) assms(3,7) by simp
  qed
  ultimately show ?thesis using one assms(6) by auto
qed

subsection \<open>Witnesses\<close>

definition quiet_tc :: tc_world where
  "quiet_tc = \<lparr>tcw_url = (\<lambda>_. None), url_string = url_path, query_escape = id, new_request = (\<lambda>_. None),
     http_do = (\<lambda>_ _. Inl []), tcw_read_file = (\<lambda>_. None), tcw_has_certs = (\<lambda>_. False)\<rparr>"

definition quiet_p4 :: p4_world where
  "quiet_p4 = \<lparr>process = (\<lambda>_ _ _ _. ([], [], None)), getenv = (\<lambda>_. []), parse_float = (\<lambda>_. None),
     sprint = (\<lambda>_. [])\<rparr>"

definition quiet_env :: "int \<Rightarrow> handle_env" where
  "quiet_env t = \<lparr>he_clock = t, he_now = \<lparr>at_stamp = ''now'', at_day = ''today''\<rparr>, he_elapsed_ms = 1,
     he_timestamp = ''now'', he_sha256 = (\<lambda>_. []), he_number = (\<lambda>l. Some l), he_sprintf = fst,
     he_teamcity = (\<lambda>_. quiet_tc), he_perforce = (\<lambda>_. quiet_p4), he_expired = (\<lambda>_. False)\<rparr>"

definition sample_runner :: runner where
  "sample_runner = \<lparr>rn_cfg = sample_config, rn_version = ''1'',
     rn_execs = [''perforce'' \<mapsto> PerforceTool (perforce sample_config)], rn_seen = [], rn_session = []\<rparr>"

definition describe_command :: "string \<Rightarrow> command" where
  "describe_command i = \<lparr>cmd_type = TypeCommand, cmd_id = i, cmd_verb = ''p4.describe'',
     cmd_args = json_object [(''change'', Itoa 7)], cmd_deadline_ms = 0, cmd_max_bytes = 0\<rparr>"

lemma sample_new: "New quiet_tc sample_config ''1'' = Inr sample_runner"
proof -
  have "Selfcheck = None" by (simp add: Selfcheck_def Selfcheck_of_None_iff Vocabulary_safe)
  then show ?thesis
    by (simp add: New_def sample_config_def sample_runner_def NewPerforce_def fun_eq_iff)
qed

lemma describe_resolves:
  "Resolve ''p4.describe'' (json_object [(''change'', Itoa 7)]) (cfg_scopes sample_config) (tool_enabled sample_config)
     = Inr (describe_verb, [''change'' \<mapsto> VInt 7])"
  by (rule describe_accepts) (simp_all add: tool_enabled_iff sample_config_def)

lemma handle_tuple: "\<exists>res r' lg' fx. handle w cmd r lg = (res, r', lg', fx)"
  by (meson prod_cases4)

theorem command_audited_witness:
  "\<exists>res r' d fx. handle (quiet_env 0) (describe_command ''c1'') sample_runner [] =
     (res, r', [(he_now (quiet_env 0), command_entry (quiet_env 0) [] (describe_command ''c1'') res d)], fx)"
proof -
  obtain res r' lg' fx where h: "handle (quiet_env 0) (describe_command ''c1'') sample_runner [] = (res, r', lg', fx)"
    using handle_tuple by metis
  have "rn_session sample_runner = []" by (simp add: sample_runner_def)
  moreover obtain d where "lg' = [] @ [(he_now (quiet_env 0),
      command_entry (quiet_env 0) (rn_session sample_runner) (describe_command ''c1'') res d)]"
    using command_audited [OF h] by blast
  ultimately show ?thesis using h by auto
qed

theorem failure_is_one_of_seventeen_witness:
  "fst (handle (quiet_env 0) (describe_command []) sample_runner []) \<in> set (failure_frames [])"
proof -
  obtain res r' lg' fx where h: "handle (quiet_env 0) (describe_command []) sample_runner [] = (res, r', lg', fx)"
    using handle_tuple by metis
  have "res_status res = StatusDenied"
    using h by (auto simp: handle_def admit_def finish_def describe_command_def Deny_def)
  then show ?thesis using failure_is_one_of_seventeen [OF h] h
    by (simp add: token_defs describe_command_def)
qed

theorem accepted_command_dispatched_witness:
  "execute (quiet_env 0) 1 sample_runner describe_verb [''change'' \<mapsto> VInt 7] 100 =
     Perforce_Execute quiet_p4 (perforce sample_config) ''p4.describe'' [''change'' \<mapsto> VInt 7] 100"
  using accepted_command_dispatched [OF sample_new describe_resolves, of "quiet_env 0" 1 100]
  by (simp add: describe_verb_def quiet_env_def)

lemma describe_admitted:
  assumes "rn_cfg r = sample_config" "rn_seen r = []"
  shows "admit (quiet_env t) (describe_command (c # i)) r =
    (Inr (Job describe_verb [''change'' \<mapsto> VInt 7] defaultDeadline (4 * 2 ^ 20)),
     r\<lparr>rn_seen := [(c # i, t)]\<rparr>)"
proof -
  have d: "command_deadline 0 = defaultDeadline" by code_simp
  show ?thesis using describe_resolves
    by (simp add: admit_def describe_command_def quiet_env_def assms claim_def dedupeMaxKeys_def d)
      (simp add: command_max_bytes_def describe_verb_def)
qed

theorem one_scoped_process_witness:
  "\<exists>res r' lg' a. handle (quiet_env 0) (describe_command ''c1'') sample_runner [] =
      (res, r', lg', [RunProcess ''p4'' (p4_argv (perforce sample_config) a) (p4_env quiet_p4 (perforce sample_config)) (20 * 10 ^ 9)]) \<and>
    scoped_p4_args wildcard_match game_scope a"
proof -
  have r: "rn_cfg sample_runner = sample_config" by (simp add: sample_runner_def)
  obtain res r' lg' fx where h: "handle (quiet_env 0) (describe_command ''c1'') sample_runner [] = (res, r', lg', fx)"
    using handle_tuple by metis
  note one = one_scoped_process [OF sample_loads sample_new r refl wildcard_match_literal h refl]
  have "fx \<noteq> []" using h describe_admitted [OF r, of 0 "CHR ''c''" "''1''"]
    by (auto simp: handle_def finish_def job_effects_def sample_runner_def execute_def run_tool_def
        describe_verb_def zero_verb_def Perforce_Execute_def describe_effect run_p4_effect)
  then obtain x where x: "fx = [x]" using one [THEN conjunct1] by (cases fx) auto
  have "\<exists>b a e t. x = RunProcess b a e t"
    using h x describe_admitted [OF r, of 0 "CHR ''c''" "''1''"]
    by (auto simp: handle_def finish_def job_effects_def sample_runner_def execute_def run_tool_def
        describe_verb_def zero_verb_def Perforce_Execute_def describe_effect run_p4_effect)
  then obtain b a e t where "x = RunProcess b a e t" by blast
  with x h one show ?thesis by (auto simp: sample_config_def quiet_env_def)
qed

end
