(* ===== verification/Reconnect.thy ===== *)
theory Reconnect
  imports Session Ws_Client
begin

text \<open>
  The connection lifecycle of \<open>internal/session/session.go\<close>: the first half of
  \<open>runOnce\<close> (dial, hello, welcome), \<open>classify\<close> and \<open>backoff\<close>. Parameters: \<open>Int63n\<close>,
  and what the dialler and the socket answer.
\<close>

subsection \<open>Errors\<close>

datatype session_error =
    DialError dial_error | WsError ws_error | EnvelopeError frame_error | WelcomeError
  | Rejected string | UnexpectedFrame string

definition classify :: "session_error option \<Rightarrow> string" where
  "classify e =
     (case e of
        None \<Rightarrow> ''closed''
      | Some (DialError (ErrUnauthorized n)) \<Rightarrow> ''unauthorized''
      | Some (WsError ErrClosedByServer) \<Rightarrow> ''closed_by_broker''
      | Some (DialError ErrQueryString) \<Rightarrow> ''endpoint_query_string''
      | Some _ \<Rightarrow> ''transport_error'')"

subsection \<open>Backoff\<close>

definition backoffMin :: int where "backoffMin = 500 * 10 ^ 6"
definition backoffMax :: int where "backoffMax = 60 * 10 ^ 9"

definition backoff_cap :: "nat \<Rightarrow> int" where
  "backoff_cap attempt =
     (let d = int64 (push_bit (min (attempt - 1) 12) backoffMin)
      in if d > backoffMax then backoffMax else d)"

definition backoff :: "(int \<Rightarrow> int) \<Rightarrow> nat \<Rightarrow> int" where
  "backoff int63n attempt = int64 (int63n (backoff_cap attempt) + backoffMin)"

subsection \<open>Coming up\<close>

definition negotiated_heartbeat :: "int \<Rightarrow> int" where
  "negotiated_heartbeat seconds =
     (if seconds > 0 then
        (let hb = int64 (seconds * 10 ^ 9)
         in if hb \<ge> minHeartbeat \<and> hb \<le> maxHeartbeat then hb else defaultHeartbeat)
      else defaultHeartbeat)"

text \<open>
  The world of one connection: the dialler, the socket's other end, the input that
  will arrive, the tools (for their versions), the instant of the log line and the
  text \<open>%s\<close> gives a duration.
\<close>

record link_env =
  le_dial :: dial_env
  le_conn :: conn_env
  le_input :: "event list"
  le_teamcity :: tc_world
  le_now :: instant
  le_duration :: "int \<Rightarrow> string"

record link =
  lk_conn :: conn
  lk_input :: "event list"
  lk_heartbeat :: int

definition dial_options_of :: "runner \<Rightarrow> dial_options" where
  "dial_options_of r =
     \<lparr>opt_endpoint = endpoint (rn_cfg r), opt_token = token (rn_cfg r),
      opt_ca_file = endpoint_ca_file (rn_cfg r), opt_user_agent = ''butterstack-connector/'' @ rn_version r,
      opt_dial_timeout = 0, opt_handshake_limit = 0\<rparr>"

definition hello_of :: "tc_world \<Rightarrow> runner \<Rightarrow> hello" where
  "hello_of w r = NewHello (connector_id (rn_cfg r)) (IntegrationID (rn_cfg r)) (rn_version r)
     CompiledVerbs (toolVersions w r)"

definition connected_entry :: "link_env \<Rightarrow> string \<Rightarrow> int \<Rightarrow> entry" where
  "connected_entry w session hb = (zero_entry ''connected'')
     \<lparr>e_session := session, e_message := ''broker accepted; heartbeat '' @ le_duration w hb\<rparr>"

text \<open>
  \<open>runOnce\<close> up to the call of \<open>pump\<close>: the link, or the error \<open>runOnce\<close> returns with
  \<open>connected = false\<close>, after which the deferred \<open>Close\<close> has run.
\<close>

definition establish :: "link_env \<Rightarrow> runner \<Rightarrow> audit_log \<Rightarrow> (session_error + link) \<times> runner \<times> audit_log" where
  "establish w r lg =
     (case fst (Dial (le_dial w) (dial_options_of r)) of
        Inl e \<Rightarrow> (Inl (DialError e), r, lg)
      | Inr c0 \<Rightarrow>
          (case WriteText (le_conn w) (octets (hello_text (hello_of (le_teamcity w) r))) c0 of
             (False, c1) \<Rightarrow> (Inl (WsError (WriteFailed (write_expired (le_conn w) (frames_out c0)))), r, lg)
           | (True, c1) \<Rightarrow>
               (case ReadMessage (le_conn w) c1 (le_input w) of
                  (Inl e, c2, es) \<Rightarrow> (Inl (WsError e), r, lg)
                | (Inr raw, c2, es) \<Rightarrow>
                    (case DecodeEnvelope (chars raw) of
                       Inl e \<Rightarrow> (Inl (EnvelopeError e), r, lg)
                     | Inr kind \<Rightarrow>
                         if kind = TypeWelcome then
                           (case decode_welcome (chars raw) of
                              None \<Rightarrow> (Inl WelcomeError, r, lg)
                            | Some hi \<Rightarrow>
                                let hb = negotiated_heartbeat (welcome_heartbeat hi)
                                in (Inr \<lparr>lk_conn = c2, lk_input = es, lk_heartbeat = hb\<rparr>,
                                    r\<lparr>rn_session := welcome_session hi\<rparr>,
                                    lg @ [(le_now w, connected_entry w (welcome_session hi) hb)]))
                         else if kind = TypeReject then
                           let reason = reject_reason (decode_reject (chars raw))
                           in (Inl (Rejected reason), r,
                               lg @ [(le_now w, (zero_entry ''rejected'')\<lparr>e_reason := reason\<rparr>)])
                         else (Inl (UnexpectedFrame kind), r, lg)))))"

subsection \<open>Facts\<close>

lemma backoff_cap_bounds: "backoffMin \<le> backoff_cap n \<and> backoff_cap n \<le> backoffMax"
proof -
  have "(2::int) ^ min (n - 1) 12 \<le> 2 ^ 12" by (intro power_increasing) simp_all
  moreover have "(1::int) \<le> 2 ^ min (n - 1) 12" by simp
  ultimately have "push_bit (min (n - 1) 12) backoffMin \<le> 500 * 10 ^ 6 * 2 ^ 12"
    "backoffMin \<le> push_bit (min (n - 1) 12) backoffMin"
    by (simp_all add: push_bit_eq_mult backoffMin_def)
  moreover from this have "int64 (push_bit (min (n - 1) 12) backoffMin) = push_bit (min (n - 1) 12) backoffMin"
    by (intro int64_id) (simp add: in_int64_def int64_min_def int64_max_def backoffMin_def)
  ultimately show ?thesis by (simp add: backoff_cap_def Let_def backoffMax_def backoffMin_def)
qed

lemma negotiated_heartbeat_bounds:
  "minHeartbeat \<le> negotiated_heartbeat s \<and> negotiated_heartbeat s \<le> maxHeartbeat"
  by (simp add: negotiated_heartbeat_def Let_def minHeartbeat_def maxHeartbeat_def defaultHeartbeat_def)

lemma establish_keeps:
  assumes "establish w r lg = (x, r', lg')"
  shows "rn_cfg r' = rn_cfg r" "rn_execs r' = rn_execs r" "rn_version r' = rn_version r" "rn_seen r' = rn_seen r"
  using assms
  by (auto simp: establish_def Let_def split: sum.splits prod.splits bool.splits option.splits if_splits)

end
