(* ===== verification/Pump.thy ===== *)
theory Pump
  imports Reconnect "HOL-Library.Multiset"
begin

text \<open>
  \<open>pump\<close> of \<open>internal/session/session.go\<close>: the heartbeat goroutine, the read loop, one
  goroutine per command behind a semaphore, and the shutdown, as a step relation. A
  step is one turn of one goroutine up to its next channel operation or socket write;
  which goroutine moves is not determined. \<open>ReadMessage\<close> is one step. Once \<open>Close\<close> ran,
  every write fails and a read ends with an error.
\<close>

subsection \<open>The state\<close>

datatype reader = Reading | Holding command | ReaderDone
datatype ticker = TickWait | TickPing | TickDone
datatype handler = Started command | Running command job | Replying command result_frame
datatype main_phase = Selecting | Draining "session_error option" | Returned "session_error option"

text \<open>
  \<open>pm_errs\<close> is the channel \<open>errCh\<close>, of capacity one. The last four fields are history:
  the commands that took a semaphore slot, the results handed to \<open>writeJSON\<close>, the ids
  that went on to be executed with the instant they did (latest first), and the last
  instant a command started at.
\<close>

record pump =
  pm_conn :: conn
  pm_input :: "event list"
  pm_runner :: runner
  pm_log :: audit_log
  pm_ticker :: ticker
  pm_reader :: reader
  pm_jobs :: "handler multiset"
  pm_errs :: "session_error option"
  pm_main :: main_phase
  pm_stopped :: bool
  pm_accepted :: "command list"
  pm_replies :: "result_frame list"
  pm_runs :: "(int \<times> string) list"
  pm_clock :: int

record pump_env =
  pe_conn :: conn_env
  pe_heartbeat :: int

definition max_jobs :: "pump \<Rightarrow> nat" where
  "max_jobs s = nat (max_concurrent (rn_cfg (pm_runner s)))"

definition cancelled :: "pump \<Rightarrow> bool" where
  "cancelled s \<longleftrightarrow> pm_stopped s \<or> pm_main s \<noteq> Selecting"

definition report :: "session_error \<Rightarrow> pump \<Rightarrow> pump" where
  "report e s = (if pm_errs s = None then s\<lparr>pm_errs := Some e\<rparr> else s)"

definition log_line :: "instant \<Rightarrow> entry \<Rightarrow> pump \<Rightarrow> pump" where
  "log_line t e s = s\<lparr>pm_log := pm_log s @ [(t, e)]\<rparr>"

text \<open>A write: whether it failed, and the state after it with the failure reported.\<close>

definition pump_write :: "conn_env \<Rightarrow> octet \<Rightarrow> octet list \<Rightarrow> pump \<Rightarrow> bool \<times> pump" where
  "pump_write w op bs s =
     (if conn_closed (pm_conn s) then (False, report (WsError (WriteFailed False)) s)
      else (case writeFrame w op bs (pm_conn s) of
              (True, c) \<Rightarrow> (True, s\<lparr>pm_conn := c\<rparr>)
            | (False, c) \<Rightarrow>
                (False, report (WsError (WriteFailed (write_expired w (frames_out (pm_conn s))))) (s\<lparr>pm_conn := c\<rparr>))))"

subsection \<open>One turn of each goroutine\<close>

definition heartbeat_of :: "string \<Rightarrow> pump \<Rightarrow> heartbeat_frame" where
  "heartbeat_of ts s = \<lparr>hb_type = TypeHeartbeat, hb_ts = ts, hb_queue_depth = int (size (pm_jobs s))\<rparr>"

definition tick_once :: "pump_env \<Rightarrow> string \<Rightarrow> pump \<Rightarrow> pump" where
  "tick_once e ts s =
     (let (ok, s') = pump_write (pe_conn e) opText (octets (heartbeat_text (heartbeat_of ts s))) s
      in s'\<lparr>pm_ticker := if ok then TickPing else TickDone\<rparr>)"

definition ping_once :: "pump_env \<Rightarrow> pump \<Rightarrow> pump" where
  "ping_once e s =
     (let (ok, s') = pump_write (pe_conn e) opPing [] s
      in s'\<lparr>pm_ticker := if ok then TickWait else TickDone\<rparr>)"

text \<open>One turn of the read loop, up to the semaphore; \<open>now\<close> is the clock after the read.\<close>

definition read_once :: "pump_env \<Rightarrow> int \<Rightarrow> instant \<Rightarrow> pump \<Rightarrow> pump" where
  "read_once e now t s =
     (if conn_closed (pm_conn s) then (report (WsError Disconnected) s)\<lparr>pm_reader := ReaderDone\<rparr>
      else (case ReadMessage (pe_conn e) (pm_conn s) (pm_input s) of
        (Inl err, c, es) \<Rightarrow>
          let s' = s\<lparr>pm_conn := c, pm_input := es\<rparr>
          in if IsTimeout err \<and> time_sub now (last_activity c) < int64 (pe_heartbeat e * readSlack) then s'
             else (report (WsError err) s')\<lparr>pm_reader := ReaderDone\<rparr>
      | (Inr raw, c, es) \<Rightarrow>
          let s' = s\<lparr>pm_conn := c, pm_input := es\<rparr>
          in (case DecodeEnvelope (chars raw) of
                Inl _ \<Rightarrow> log_line t ((zero_entry ''frame_dropped'')\<lparr>e_reason := ''malformed''\<rparr>) s'
              | Inr kind \<Rightarrow>
                  if kind \<noteq> TypeCommand then
                    log_line t ((zero_entry ''frame_ignored'')\<lparr>e_message := kind\<rparr>) s'
                  else (case decode_command (chars raw) of
                          None \<Rightarrow> log_line t ((zero_entry ''frame_dropped'')\<lparr>e_reason := ''malformed_command''\<rparr>) s'
                        | Some cmd \<Rightarrow> s'\<lparr>pm_reader := Holding cmd\<rparr>))))"

text \<open>The goroutine of one command: \<open>handle\<close> in its two halves, then \<open>writeJSON\<close>.\<close>

definition begin_job :: "handle_env \<Rightarrow> command \<Rightarrow> pump \<Rightarrow> pump" where
  "begin_job w cmd s =
     (let (y, r) = admit w cmd (pm_runner s);
          s1 = s\<lparr>pm_runner := r, pm_clock := he_clock w\<rparr>
      in case y of
           Inr j \<Rightarrow> s1\<lparr>pm_jobs := add_mset (Running cmd j) (pm_jobs s - {#Started cmd#}),
                      pm_runs := (he_clock w, cmd_id cmd) # pm_runs s\<rparr>
         | Inl x \<Rightarrow>
             let (res, lg) = finish w (rn_session (pm_runner s)) cmd x (pm_log s)
             in s1\<lparr>pm_log := lg, pm_jobs := add_mset (Replying cmd res) (pm_jobs s - {#Started cmd#})\<rparr>)"

definition end_job :: "handle_env \<Rightarrow> command \<Rightarrow> job \<Rightarrow> pump \<Rightarrow> pump" where
  "end_job w cmd j s =
     (let (res, lg) = finish w (rn_session (pm_runner s)) cmd (settle w (pm_runner s) cmd j) (pm_log s)
      in s\<lparr>pm_log := lg, pm_jobs := add_mset (Replying cmd res) (pm_jobs s - {#Running cmd j#})\<rparr>)"

definition reply_once :: "pump_env \<Rightarrow> command \<Rightarrow> result_frame \<Rightarrow> pump \<Rightarrow> pump" where
  "reply_once e cmd res s =
     (snd (pump_write (pe_conn e) opText (octets (result_text res)) s))
       \<lparr>pm_jobs := pm_jobs s - {#Replying cmd res#}, pm_replies := pm_replies s @ [res]\<rparr>"

definition close_pump :: "pump_env \<Rightarrow> session_error option \<Rightarrow> pump \<Rightarrow> pump" where
  "close_pump e x s = s\<lparr>pm_conn := Close (pe_conn e) (pm_conn s), pm_main := Draining x\<rparr>"

subsection \<open>Steps\<close>

text \<open>
  A ticker turn can happen after the cancellation, since \<open>select\<close> chooses freely among
  ready cases; so can \<open>acquire\<close>. The clock \<open>claim\<close> reads does not go back between two
  commands.
\<close>

inductive pump_step :: "pump_env \<Rightarrow> pump \<Rightarrow> pump \<Rightarrow> bool" for e where
  tick: "pm_ticker s = TickWait \<Longrightarrow> pump_step e s (tick_once e ts s)"
| ping: "pm_ticker s = TickPing \<Longrightarrow> pump_step e s (ping_once e s)"
| tick_stop: "pm_ticker s = TickWait \<Longrightarrow> cancelled s \<Longrightarrow> pump_step e s (s\<lparr>pm_ticker := TickDone\<rparr>)"
| read: "pm_reader s = Reading \<Longrightarrow> pump_step e s (read_once e now t s)"
| acquire: "pm_reader s = Holding cmd \<Longrightarrow> size (pm_jobs s) < max_jobs s \<Longrightarrow>
    pump_step e s (s\<lparr>pm_reader := Reading, pm_jobs := add_mset (Started cmd) (pm_jobs s),
                    pm_accepted := pm_accepted s @ [cmd]\<rparr>)"
| abandon: "pm_reader s = Holding cmd \<Longrightarrow> cancelled s \<Longrightarrow> pump_step e s (s\<lparr>pm_reader := ReaderDone\<rparr>)"
| start: "Started cmd \<in># pm_jobs s \<Longrightarrow> pm_clock s \<le> he_clock w \<Longrightarrow> pump_step e s (begin_job w cmd s)"
| settled: "Running cmd j \<in># pm_jobs s \<Longrightarrow> pump_step e s (end_job w cmd j s)"
| reply: "Replying cmd res \<in># pm_jobs s \<Longrightarrow> pump_step e s (reply_once e cmd res s)"
| main_error: "pm_main s = Selecting \<Longrightarrow> pm_errs s = Some x \<Longrightarrow>
    pump_step e s (close_pump e (Some x) (s\<lparr>pm_errs := None\<rparr>))"
| main_stop: "pm_main s = Selecting \<Longrightarrow> pm_stopped s \<Longrightarrow> pump_step e s (close_pump e None s)"
| main_return: "pm_main s = Draining x \<Longrightarrow> pm_reader s = ReaderDone \<Longrightarrow> pm_ticker s = TickDone \<Longrightarrow>
    pm_jobs s = {#} \<Longrightarrow> pump_step e s (s\<lparr>pm_main := Returned x\<rparr>)"
| stop: "\<not> pm_stopped s \<Longrightarrow> pump_step e s (s\<lparr>pm_stopped := True\<rparr>)"

definition pump_start :: "link \<Rightarrow> runner \<Rightarrow> audit_log \<Rightarrow> (int \<times> string) list \<Rightarrow> int \<Rightarrow> pump" where
  "pump_start l r lg runs clock =
     \<lparr>pm_conn = lk_conn l, pm_input = lk_input l, pm_runner = r, pm_log = lg, pm_ticker = TickWait,
      pm_reader = Reading, pm_jobs = {#}, pm_errs = None, pm_main = Selecting, pm_stopped = False,
      pm_accepted = [], pm_replies = [], pm_runs = runs, pm_clock = clock\<rparr>"

inductive_cases pump_stepE: "pump_step e s s'"

subsection \<open>What the turns leave alone\<close>

lemma report_simps [simp]:
  "pm_conn (report x s) = pm_conn s" "pm_input (report x s) = pm_input s" "pm_runner (report x s) = pm_runner s"
  "pm_log (report x s) = pm_log s" "pm_ticker (report x s) = pm_ticker s" "pm_reader (report x s) = pm_reader s"
  "pm_jobs (report x s) = pm_jobs s" "pm_main (report x s) = pm_main s" "pm_stopped (report x s) = pm_stopped s"
  "pm_accepted (report x s) = pm_accepted s" "pm_replies (report x s) = pm_replies s"
  "pm_runs (report x s) = pm_runs s" "pm_clock (report x s) = pm_clock s"
  "pm_errs (report x s) \<noteq> None"
  by (simp_all add: report_def)

lemma writeFrame_closed [simp]: "conn_closed (snd (writeFrame w op p c)) = conn_closed c"
  by (simp add: writeFrame_def Let_def split: option.split)

lemma read_loop_closed: "conn_closed (fst (snd (read_loop w msg c es))) = conn_closed c"
proof (induction w msg c es rule: read_loop.induct)
  case (1 w msg c es)
  have wf: "writeFrame w op p c1 = (b, c2) \<Longrightarrow> conn_closed c2 = conn_closed c1" for op p c1 b c2
    using writeFrame_closed [of w op p c1] by simp
  show ?case
    by (subst read_loop.simps)
      (auto simp: 1 Let_def touch_def wf split: prod.split sum.split bool.split)
qed

lemma ReadMessage_closed: "ReadMessage w c es = (r, c', es') \<Longrightarrow> conn_closed c' = conn_closed c"
  using read_loop_closed [of w "[]" c es] by (simp add: ReadMessage_def)

lemma Close_closed [simp]: "conn_closed (Close w c)"
  by (simp add: Close_def WriteClose_def)

lemma pump_write_frame [simp]:
  "pm_input (snd (pump_write w op bs s)) = pm_input s"
  "pm_runner (snd (pump_write w op bs s)) = pm_runner s"
  "pm_log (snd (pump_write w op bs s)) = pm_log s"
  "pm_ticker (snd (pump_write w op bs s)) = pm_ticker s"
  "pm_reader (snd (pump_write w op bs s)) = pm_reader s"
  "pm_jobs (snd (pump_write w op bs s)) = pm_jobs s"
  "pm_main (snd (pump_write w op bs s)) = pm_main s"
  "pm_stopped (snd (pump_write w op bs s)) = pm_stopped s"
  "pm_accepted (snd (pump_write w op bs s)) = pm_accepted s"
  "pm_replies (snd (pump_write w op bs s)) = pm_replies s"
  "pm_runs (snd (pump_write w op bs s)) = pm_runs s"
  "pm_clock (snd (pump_write w op bs s)) = pm_clock s"
  "conn_closed (pm_conn (snd (pump_write w op bs s))) = conn_closed (pm_conn s)"
  "conn_closed (pm_conn s) \<Longrightarrow> \<not> fst (pump_write w op bs s)"
  using writeFrame_closed [of w op bs "pm_conn s"]
  by (cases "writeFrame w op bs (pm_conn s)"; simp add: pump_write_def split: bool.split; auto)+

lemma tick_once_frame [simp]:
  "pm_runner (tick_once e ts s) = pm_runner s" "pm_log (tick_once e ts s) = pm_log s"
  "pm_reader (tick_once e ts s) = pm_reader s" "pm_jobs (tick_once e ts s) = pm_jobs s"
  "pm_main (tick_once e ts s) = pm_main s" "pm_stopped (tick_once e ts s) = pm_stopped s"
  "pm_accepted (tick_once e ts s) = pm_accepted s" "pm_replies (tick_once e ts s) = pm_replies s"
  "pm_runs (tick_once e ts s) = pm_runs s" "pm_clock (tick_once e ts s) = pm_clock s"
  "conn_closed (pm_conn (tick_once e ts s)) = conn_closed (pm_conn s)"
  "conn_closed (pm_conn s) \<Longrightarrow> pm_ticker (tick_once e ts s) = TickDone"
  by (simp_all add: tick_once_def case_prod_beta)

lemma ping_once_frame [simp]:
  "pm_runner (ping_once e s) = pm_runner s" "pm_log (ping_once e s) = pm_log s"
  "pm_reader (ping_once e s) = pm_reader s" "pm_jobs (ping_once e s) = pm_jobs s"
  "pm_main (ping_once e s) = pm_main s" "pm_stopped (ping_once e s) = pm_stopped s"
  "pm_accepted (ping_once e s) = pm_accepted s" "pm_replies (ping_once e s) = pm_replies s"
  "pm_runs (ping_once e s) = pm_runs s" "pm_clock (ping_once e s) = pm_clock s"
  "conn_closed (pm_conn (ping_once e s)) = conn_closed (pm_conn s)"
  "conn_closed (pm_conn s) \<Longrightarrow> pm_ticker (ping_once e s) = TickDone"
  by (simp_all add: ping_once_def case_prod_beta)

lemma reply_once_frame [simp]:
  "pm_runner (reply_once e c r s) = pm_runner s" "pm_log (reply_once e c r s) = pm_log s"
  "pm_reader (reply_once e c r s) = pm_reader s" "pm_ticker (reply_once e c r s) = pm_ticker s"
  "pm_main (reply_once e c r s) = pm_main s" "pm_stopped (reply_once e c r s) = pm_stopped s"
  "pm_accepted (reply_once e c r s) = pm_accepted s"
  "pm_replies (reply_once e c r s) = pm_replies s @ [r]"
  "pm_jobs (reply_once e c r s) = pm_jobs s - {#Replying c r#}"
  "pm_runs (reply_once e c r s) = pm_runs s" "pm_clock (reply_once e c r s) = pm_clock s"
  "conn_closed (pm_conn (reply_once e c r s)) = conn_closed (pm_conn s)"
  by (simp_all add: reply_once_def)

text \<open>What a turn of the read loop can do: log a line that is no command's, or end.\<close>

lemma read_once_frame [simp]:
  "pm_runner (read_once e now t s) = pm_runner s" "pm_ticker (read_once e now t s) = pm_ticker s"
  "pm_jobs (read_once e now t s) = pm_jobs s" "pm_main (read_once e now t s) = pm_main s"
  "pm_stopped (read_once e now t s) = pm_stopped s" "pm_accepted (read_once e now t s) = pm_accepted s"
  "pm_replies (read_once e now t s) = pm_replies s" "pm_runs (read_once e now t s) = pm_runs s"
  "pm_clock (read_once e now t s) = pm_clock s"
  "conn_closed (pm_conn (read_once e now t s)) = conn_closed (pm_conn s)"
  "conn_closed (pm_conn s) \<Longrightarrow> pm_reader (read_once e now t s) = ReaderDone"
  by (cases "ReadMessage (pe_conn e) (pm_conn s) (pm_input s)";
      auto simp: read_once_def log_line_def Let_def dest: ReadMessage_closed split: sum.split option.split)+

lemma read_once_log:
  "\<exists>x. pm_log (read_once e now t s) = pm_log s @ x \<and> list_all (\<lambda>(t, y). e_event y \<in> {''frame_dropped'', ''frame_ignored''}) x"
  by (cases "ReadMessage (pe_conn e) (pm_conn s) (pm_input s)")
    (auto simp: read_once_def log_line_def Let_def zero_entry_def split: sum.split option.split)

lemma close_pump_frame [simp]:
  "pm_runner (close_pump e x s) = pm_runner s" "pm_log (close_pump e x s) = pm_log s"
  "pm_reader (close_pump e x s) = pm_reader s" "pm_ticker (close_pump e x s) = pm_ticker s"
  "pm_jobs (close_pump e x s) = pm_jobs s" "pm_stopped (close_pump e x s) = pm_stopped s"
  "pm_accepted (close_pump e x s) = pm_accepted s" "pm_replies (close_pump e x s) = pm_replies s"
  "pm_runs (close_pump e x s) = pm_runs s" "pm_clock (close_pump e x s) = pm_clock s"
  "pm_main (close_pump e x s) = Draining x" "conn_closed (pm_conn (close_pump e x s))"
  by (simp_all add: close_pump_def)

end
