(* ===== verification/Run_Loop.thy ===== *)
theory Run_Loop
  imports Pump
begin

text \<open>
  \<open>Runner.Run\<close> of \<open>internal/session/session.go\<close>: connect, pump, schedule the next
  attempt, until the context is cancelled. Parameters: the text of an error and of a
  duration. \<open>rs_runs\<close> and \<open>rs_clock\<close> carry the history of \<^theory_text>\<open>Pump\<close> over
  from one session to the next. A turn of the loop is labelled with what happened in it,
  so that a run of the process is the list of its turns.
\<close>

record run_state =
  rs_attempt :: nat
  rs_runner :: runner
  rs_log :: audit_log
  rs_runs :: "(int \<times> string) list"
  rs_clock :: int
  rs_done :: bool

record wait_env =
  we_int63n :: "int \<Rightarrow> int"
  we_now :: instant
  we_error :: "session_error \<Rightarrow> string"
  we_duration :: "int \<Rightarrow> string"

text \<open>\<open>Duration.Round\<close> to a millisecond, half away from zero, for a positive duration.\<close>

definition round_ms :: "int \<Rightarrow> int" where
  "round_ms d = (let r = d mod 10 ^ 6 in if r + r < 10 ^ 6 then d - r else d + 10 ^ 6 - r)"

definition reconnect_entry :: "wait_env \<Rightarrow> session_error option \<Rightarrow> int \<Rightarrow> nat \<Rightarrow> entry" where
  "reconnect_entry w err d attempt = (zero_entry ''reconnect_scheduled'')
     \<lparr>e_reason := classify err,
      e_message := (case err of None \<Rightarrow> ''connection closed'' | Some x \<Rightarrow> we_error w x) @ ''; retrying in '' @
        we_duration w (round_ms d) @ '' (attempt '' @ Itoa (int attempt) @ '')''\<rparr>"

definition schedule :: "wait_env \<Rightarrow> bool \<Rightarrow> session_error option \<Rightarrow> run_state \<Rightarrow> run_state" where
  "schedule w came_up err s =
     (let attempt = Suc (if came_up then 0 else rs_attempt s);
          d = backoff (we_int63n w) attempt
      in s\<lparr>rs_attempt := attempt, rs_log := rs_log s @ [(we_now w, reconnect_entry w err d attempt)]\<rparr>)"

definition after_pump :: "pump \<Rightarrow> run_state \<Rightarrow> run_state" where
  "after_pump p s = s\<lparr>rs_runner := pm_runner p, rs_log := pm_log p, rs_runs := pm_runs p, rs_clock := pm_clock p\<rparr>"

definition pump_env_of :: "link_env \<Rightarrow> link \<Rightarrow> pump_env" where
  "pump_env_of w l = \<lparr>pe_conn = le_conn w, pe_heartbeat = lk_heartbeat l\<rparr>"

text \<open>
  What a turn was: the context was cancelled and \<open>Run\<close> returned; no session came up in
  the world of the first field, with that error; or one came up and ended with the error
  \<open>runOnce\<close> returned. The last field is the world of the wait.
\<close>

datatype turn =
    Ended
  | Failed link_env session_error wait_env
  | Served link_env "session_error option" wait_env

text \<open>
  The session one connection serves, from the link that came up to the error \<open>pump\<close>
  returned.
\<close>

definition serves :: "link_env \<Rightarrow> run_state \<Rightarrow> pump \<Rightarrow> session_error option \<Rightarrow> bool" where
  "serves w s p x \<longleftrightarrow> (\<exists>l r lg. establish w (rs_runner s) (rs_log s) = (Inr l, r, lg) \<and>
     rtranclp (pump_step (pump_env_of w l)) (pump_start l r lg (rs_runs s) (rs_clock s)) p \<and>
     pm_main p = Returned x)"

text \<open>
  The context can be cancelled before the dial or during the wait (\<open>quit\<close>), or while
  \<open>runOnce\<close> ran.
\<close>

inductive run_turn :: "turn \<Rightarrow> run_state \<Rightarrow> run_state \<Rightarrow> bool" where
  quit: "\<not> rs_done s \<Longrightarrow> run_turn Ended s (s\<lparr>rs_done := True\<rparr>)"
| down: "\<not> rs_done s \<Longrightarrow> establish w (rs_runner s) (rs_log s) = (Inl err, r, lg) \<Longrightarrow>
    run_turn (Failed w err v) s (schedule v False (Some err) (s\<lparr>rs_runner := r, rs_log := lg\<rparr>))"
| down_cancelled: "\<not> rs_done s \<Longrightarrow> establish w (rs_runner s) (rs_log s) = (Inl err, r, lg) \<Longrightarrow>
    run_turn Ended s (s\<lparr>rs_runner := r, rs_log := lg, rs_done := True\<rparr>)"
| up: "\<not> rs_done s \<Longrightarrow> serves w s p x \<Longrightarrow> \<not> pm_stopped p \<Longrightarrow>
    run_turn (Served w x v) s (schedule v True x (after_pump p s))"
| up_cancelled: "\<not> rs_done s \<Longrightarrow> serves w s p x \<Longrightarrow>
    run_turn Ended s ((after_pump p s)\<lparr>rs_done := True\<rparr>)"

inductive_cases run_turnE: "run_turn t s s'"

definition run_step :: "run_state \<Rightarrow> run_state \<Rightarrow> bool" where
  "run_step s s' \<longleftrightarrow> (\<exists>t. run_turn t s s')"

text \<open>A run of the process, as the list of its turns.\<close>

inductive run_turns :: "turn list \<Rightarrow> run_state \<Rightarrow> run_state \<Rightarrow> bool" where
  none: "run_turns [] s s"
| more: "run_turns ts s s' \<Longrightarrow> run_turn t s' s'' \<Longrightarrow> run_turns (ts @ [t]) s s''"

definition run_start :: "runner \<Rightarrow> audit_log \<Rightarrow> int \<Rightarrow> run_state" where
  "run_start r lg now =
     \<lparr>rs_attempt = 0, rs_runner = r, rs_log = lg, rs_runs = [], rs_clock = now, rs_done = False\<rparr>"

lemma schedule_simps [simp]:
  "rs_runner (schedule w b x s) = rs_runner s" "rs_runs (schedule w b x s) = rs_runs s"
  "rs_clock (schedule w b x s) = rs_clock s" "rs_done (schedule w b x s) = rs_done s"
  "rs_attempt (schedule w b x s) = Suc (if b then 0 else rs_attempt s)"
  by (simp_all add: schedule_def Let_def)

lemma after_pump_simps [simp]:
  "rs_runner (after_pump p s) = pm_runner p" "rs_log (after_pump p s) = pm_log p"
  "rs_runs (after_pump p s) = pm_runs p" "rs_clock (after_pump p s) = pm_clock p"
  "rs_done (after_pump p s) = rs_done s" "rs_attempt (after_pump p s) = rs_attempt s"
  by (simp_all add: after_pump_def)

end
