(* ===== verification/Pump_Properties.thy ===== *)
theory Pump_Properties
  imports Pump Session_Properties
begin

text \<open>
  Invariants of the running session by induction over its steps: the semaphore, one
  result and one audit line per command, no id run twice within the window, printable
  results; and the shutdown, which always ends.
\<close>

subsection \<open>The turns of a command's goroutine\<close>

lemma begin_job_frame [simp]:
  "pm_conn (begin_job w c s) = pm_conn s" "pm_ticker (begin_job w c s) = pm_ticker s"
  "pm_reader (begin_job w c s) = pm_reader s" "pm_errs (begin_job w c s) = pm_errs s"
  "pm_main (begin_job w c s) = pm_main s" "pm_stopped (begin_job w c s) = pm_stopped s"
  "pm_accepted (begin_job w c s) = pm_accepted s" "pm_replies (begin_job w c s) = pm_replies s"
  "pm_clock (begin_job w c s) = he_clock w" "pm_runner (begin_job w c s) = snd (admit w c (pm_runner s))"
  by (simp_all add: begin_job_def Let_def case_prod_beta split: sum.split)

lemma begin_job_changes:
  "pm_jobs (begin_job w c s) = add_mset
     (case fst (admit w c (pm_runner s)) of Inl x \<Rightarrow> Replying c (fst x) | Inr j \<Rightarrow> Running c j)
     (pm_jobs s - {#Started c#})"
  "pm_log (begin_job w c s) = pm_log s @
     (case fst (admit w c (pm_runner s)) of
        Inl x \<Rightarrow> [(he_now w, command_entry w (rn_session (pm_runner s)) c (fst x) (snd x))] | Inr j \<Rightarrow> [])"
  by (simp_all add: begin_job_def Let_def case_prod_beta finish_def split: sum.split)

lemma begin_job_runs:
  "pm_runs (begin_job w c s) =
     (case fst (admit w c (pm_runner s)) of Inl x \<Rightarrow> pm_runs s | Inr j \<Rightarrow> (he_clock w, cmd_id c) # pm_runs s)"
  by (simp add: begin_job_def Let_def case_prod_beta split: sum.split)

lemma end_job_frame [simp]:
  "pm_conn (end_job w c j s) = pm_conn s" "pm_ticker (end_job w c j s) = pm_ticker s"
  "pm_reader (end_job w c j s) = pm_reader s" "pm_errs (end_job w c j s) = pm_errs s"
  "pm_main (end_job w c j s) = pm_main s" "pm_stopped (end_job w c j s) = pm_stopped s"
  "pm_accepted (end_job w c j s) = pm_accepted s" "pm_replies (end_job w c j s) = pm_replies s"
  "pm_clock (end_job w c j s) = pm_clock s" "pm_runner (end_job w c j s) = pm_runner s"
  "pm_runs (end_job w c j s) = pm_runs s"
  "pm_jobs (end_job w c j s) = add_mset (Replying c (fst (settle w (pm_runner s) c j))) (pm_jobs s - {#Running c j#})"
  "pm_log (end_job w c j s) = pm_log s @
     [(he_now w, command_entry w (rn_session (pm_runner s)) c
         (fst (settle w (pm_runner s) c j)) (snd (settle w (pm_runner s) c j)))]"
  by (simp_all add: end_job_def Let_def case_prod_beta finish_def)

lemma max_jobs_turns [simp]:
  "max_jobs (tick_once e ts s) = max_jobs s" "max_jobs (ping_once e s) = max_jobs s"
  "max_jobs (read_once e now t s) = max_jobs s" "max_jobs (begin_job w c s) = max_jobs s"
  "max_jobs (end_job w c j s) = max_jobs s" "max_jobs (reply_once e c r s) = max_jobs s"
  "max_jobs (close_pump e x s) = max_jobs s"
  by (simp_all add: max_jobs_def admit_keeps)

lemma pump_invariant:
  assumes "rtranclp (pump_step e) s0 s" "P s0" "\<And>s s'. P s \<Longrightarrow> pump_step e s s' \<Longrightarrow> P s'"
  shows "P s"
  using assms(1,2) by (induction rule: rtranclp_induct) (blast intro: assms(3))+

subsection \<open>The semaphore\<close>

lemma jobs_bounded_step:
  assumes "pump_step e s s'" "size (pm_jobs s) \<le> max_jobs s"
  shows "size (pm_jobs s') \<le> max_jobs s'"
  using assms
proof cases
  case acquire
  then show ?thesis by (simp add: max_jobs_def)
qed (use assms(2) in \<open>auto simp: begin_job_changes size_Diff_singleton max_jobs_def admit_keeps
      dest!: multi_member_split\<close>)

subsection \<open>One answer and one audit line per command\<close>

definition job_id :: "handler \<Rightarrow> string" where
  "job_id h = (case h of Started c \<Rightarrow> cmd_id c | Running c j \<Rightarrow> cmd_id c | Replying c r \<Rightarrow> cmd_id c)"

definition outcome :: "result_frame \<Rightarrow> string \<times> string \<times> string" where
  "outcome r = (res_id r, res_status r, res_reason r)"

definition answered :: "handler \<Rightarrow> (string \<times> string \<times> string) multiset" where
  "answered h = (case h of Replying c r \<Rightarrow> {#outcome r#} | _ \<Rightarrow> {#})"

text \<open>The outcomes the audit log records for commands.\<close>

definition audited :: "audit_log \<Rightarrow> (string \<times> string \<times> string) multiset" where
  "audited lg = mset (map (\<lambda>(t, e). (e_command e, e_status e, e_reason e))
     (filter (\<lambda>(t, e). e_event e = ''command'') lg))"

definition answers_ok :: "(string \<times> string \<times> string) multiset \<Rightarrow> command list \<Rightarrow> result_frame list \<Rightarrow>
    handler multiset \<Rightarrow> (string \<times> string \<times> string) multiset \<Rightarrow> bool" where
  "answers_ok old acc reps jobs aud \<longleftrightarrow>
     mset (map cmd_id acc) = mset (map res_id reps) + image_mset job_id jobs \<and>
     (\<forall>c r. Replying c r \<in># jobs \<longrightarrow> res_id r = cmd_id c) \<and>
     aud = old + mset (map outcome reps) + \<Sum>\<^sub># (image_mset answered jobs)"

definition answers_inv :: "(string \<times> string \<times> string) multiset \<Rightarrow> pump \<Rightarrow> bool" where
  "answers_inv old s \<longleftrightarrow> answers_ok old (pm_accepted s) (pm_replies s) (pm_jobs s) (audited (pm_log s))"

lemma job_id_simps [simp]:
  "job_id (Started c) = cmd_id c" "job_id (Running c j) = cmd_id c" "job_id (Replying c r) = cmd_id c"
  by (simp_all add: job_id_def)

lemma answered_simps [simp]:
  "answered (Started c) = {#}" "answered (Running c j) = {#}" "answered (Replying c r) = {#outcome r#}"
  by (simp_all add: answered_def)

lemma answers_ok_accept:
  "answers_ok old acc reps jobs aud \<Longrightarrow> answers_ok old (acc @ [c]) reps (add_mset (Started c) jobs) aud"
  by (simp add: answers_ok_def)

lemma answers_ok_run:
  "answers_ok old acc reps (add_mset (Started c) M) aud \<Longrightarrow> answers_ok old acc reps (add_mset (Running c j) M) aud"
  by (simp add: answers_ok_def)

lemma answers_ok_answer:
  assumes "answers_ok old acc reps (add_mset h M) aud" "h = Started c \<or> h = Running c j" "res_id r = cmd_id c"
  shows "answers_ok old acc reps (add_mset (Replying c r) M) (aud + {#outcome r#})"
proof -
  have "job_id h = cmd_id c" "answered h = {#}" using assms(2) by auto
  then show ?thesis using assms(1,3) by (simp add: answers_ok_def)
qed

lemma answers_ok_reply:
  assumes "answers_ok old acc reps (add_mset (Replying c r) M) aud"
  shows "answers_ok old acc (reps @ [r]) M aud"
proof -
  note a = assms [unfolded answers_ok_def]
  note ids = a [THEN conjunct2, THEN conjunct1, rule_format]
  have r: "res_id r = cmd_id c" by (rule ids) simp
  show ?thesis unfolding answers_ok_def
  proof (intro conjI)
    show "mset (map cmd_id acc) = mset (map res_id (reps @ [r])) + image_mset job_id M"
      using a [THEN conjunct1] by (simp add: r)
    show "\<forall>c r. Replying c r \<in># M \<longrightarrow> res_id r = cmd_id c"
      using ids by simp
    show "aud = old + mset (map outcome (reps @ [r])) + \<Sum>\<^sub># (image_mset answered M)"
      using a [THEN conjunct2, THEN conjunct2] by simp
  qed
qed

lemma audited_append [simp]: "audited (a @ b) = audited a + audited b"
  by (simp add: audited_def)

lemma audited_command [simp]:
  "res_id r = cmd_id c \<Longrightarrow> audited [(t, command_entry w n c r d)] = {#outcome r#}"
  by (simp add: audited_def command_entry_def zero_entry_def outcome_def)

lemma audited_Nil [simp]: "audited [] = {#}"
  by (simp add: audited_def)

lemma audited_other: "list_all (\<lambda>(t, y). e_event y \<in> {''frame_dropped'', ''frame_ignored''}) x \<Longrightarrow> audited x = {#}"
  by (auto simp: audited_def filter_empty_conv list_all_iff)

lemma audited_read [simp]: "audited (pm_log (read_once e now t s)) = audited (pm_log s)"
  using read_once_log [of e now t s] audited_other by force

lemma admit_refused_id: "fst (admit w c r) = Inl x \<Longrightarrow> res_id (fst x) = cmd_id c"
proof -
  assume "fst (admit w c r) = Inl x"
  then have "admit w c r = (Inl (fst x, snd x), snd (admit w c r))" by (cases "admit w c r") simp
  from admit_InlD [OF this] show ?thesis by (auto simp: Deny_def)
qed

lemma answers_step:
  assumes "pump_step e s s'" "answers_inv old s"
  shows "answers_inv old s'"
  using assms(1)
proof cases
  case (acquire cmd)
  then show ?thesis using answers_ok_accept assms(2) by (simp add: answers_inv_def)
next
  case (start cmd w)
  then obtain M where M: "pm_jobs s = add_mset (Started cmd) M" by (blast dest: multi_member_split)
  note old = assms(2) [unfolded answers_inv_def M]
  show ?thesis
  proof (cases "fst (admit w cmd (pm_runner s))")
    case (Inl x)
    then show ?thesis using start M answers_ok_answer [OF old _ admit_refused_id [OF Inl]] admit_refused_id [OF Inl]
      by (simp add: answers_inv_def begin_job_changes)
  next
    case (Inr j)
    then show ?thesis using start M answers_ok_run [OF old, of j] by (simp add: answers_inv_def begin_job_changes)
  qed
next
  case (settled cmd j w)
  then obtain M where M: "pm_jobs s = add_mset (Running cmd j) M" by (blast dest: multi_member_split)
  note old = assms(2) [unfolded answers_inv_def M]
  show ?thesis using settled M answers_ok_answer [OF old _ settle_id] settle_id
    by (simp add: answers_inv_def)
next
  case (reply cmd res)
  then obtain M where M: "pm_jobs s = add_mset (Replying cmd res) M" by (blast dest: multi_member_split)
  from answers_ok_reply [OF assms(2) [unfolded answers_inv_def M]] show ?thesis
    using reply M by (simp add: answers_inv_def)
qed (use assms(2) in \<open>simp_all add: answers_inv_def\<close>)

subsection \<open>Claims\<close>

text \<open>Acceptances of one id are more than the window apart, the latest first.\<close>

definition spaced :: "(int \<times> string) list \<Rightarrow> bool" where
  "spaced cs \<longleftrightarrow> sorted_wrt (\<lambda>(t, i) (u, j). i = j \<longrightarrow> dedupeWindow < t - u) cs"

definition claims_ok :: "(int \<times> string) list \<Rightarrow> int \<Rightarrow> seen \<Rightarrow> bool" where
  "claims_ok cs now s \<longleftrightarrow> ids.represents cs now s \<and> (\<forall>(u, j) \<in> set cs. u \<le> now) \<and> spaced cs"

lemma claims_ok_start: "claims_ok [] now []"
  by (simp add: claims_ok_def ids.represents_def seen_ok_def spaced_def)

lemma claims_ok_claim:
  assumes "claims_ok cs now s" "now \<le> t"
  shows "claims_ok (if fst (claim t i s) then (t, i) # cs else cs) t (snd (claim t i s))"
proof -
  have rep: "ids.represents cs t s" using ids.represents_later assms by (auto simp: claims_ok_def)
  have past: "\<forall>(u, j) \<in> set cs. u \<le> t" using assms by (fastforce simp: claims_ok_def)
  have "fst (claim t i s) \<Longrightarrow> spaced ((t, i) # cs)"
    using ids.represents_answer [OF rep, of i] assms(1)
    by (auto simp: spaced_def claims_ok_def allowed_def list_all_iff)
  then show ?thesis using ids.represents_claim [OF rep past, of i] past assms(1)
    by (auto simp: claims_ok_def)
qed

lemma claims_ok_later: "claims_ok cs now s \<Longrightarrow> now \<le> t \<Longrightarrow> claims_ok cs t s"
  using ids.represents_later by (fastforce simp: claims_ok_def)

lemma admit_seen:
  "rn_seen (snd (admit w c r)) = (if cmd_id c = [] then rn_seen r else snd (claim (he_clock w) (cmd_id c) (rn_seen r)))"
  by (auto simp: admit_def Let_def case_prod_beta split: sum.split)

text \<open>
  The table remembers some history of acceptances, and every run is one of these: so
  runs of one id are spaced as acceptances are.
\<close>

definition runs_ok :: "(int \<times> string) list \<Rightarrow> int \<Rightarrow> seen \<Rightarrow> bool" where
  "runs_ok runs now s \<longleftrightarrow> spaced runs \<and> (\<forall>(u, j) \<in> set runs. j \<noteq> []) \<and>
     (\<exists>hist. claims_ok hist now s \<and> set runs \<subseteq> set hist)"

lemma runs_ok_start: "runs_ok [] now []"
  using claims_ok_start by (auto simp: runs_ok_def spaced_def)

lemma runs_ok_allowed:
  assumes "runs_ok runs now s" "now \<le> t" "fst (claim t i s)"
  shows "allowed dedupeWindow runs t i"
proof -
  from assms(1) obtain hist where h: "claims_ok hist now s" "set runs \<subseteq> set hist" by (auto simp: runs_ok_def)
  then have "allowed dedupeWindow hist t i"
    using ids.represents_answer [of hist t s i] ids.represents_later [of hist now s t] assms(2,3)
    by (auto simp: claims_ok_def)
  then show ?thesis using h(2) by (auto simp: allowed_def list_all_iff)
qed

lemma runs_ok_claim:
  assumes "runs_ok runs now s" "now \<le> t"
  shows "runs_ok runs t (snd (claim t i s))"
    and "fst (claim t i s) \<Longrightarrow> i \<noteq> [] \<Longrightarrow> runs_ok ((t, i) # runs) t (snd (claim t i s))"
proof -
  from assms(1) obtain hist where h: "claims_ok hist now s" "set runs \<subseteq> set hist"
    and r: "spaced runs" "\<forall>(u, j) \<in> set runs. j \<noteq> []" by (auto simp: runs_ok_def)
  note c = claims_ok_claim [OF h(1) assms(2), of i]
  then show "runs_ok runs t (snd (claim t i s))"
    using h(2) r unfolding runs_ok_def
    by (intro conjI exI [of _ "if fst (claim t i s) then (t, i) # hist else hist"]) auto
  assume acc: "fst (claim t i s)" "i \<noteq> []"
  have "spaced ((t, i) # runs)" using runs_ok_allowed [OF assms acc(1)] r(1)
    by (auto simp: spaced_def allowed_def list_all_iff)
  then show "runs_ok ((t, i) # runs) t (snd (claim t i s))"
    using c acc h(2) r(2) by (auto simp: runs_ok_def intro!: exI [of _ "(t, i) # hist"])
qed

lemma runs_ok_later: "runs_ok runs now s \<Longrightarrow> now \<le> t \<Longrightarrow> runs_ok runs t s"
  using claims_ok_later by (fastforce simp: runs_ok_def)

definition runs_inv :: "pump \<Rightarrow> bool" where
  "runs_inv s \<longleftrightarrow> runs_ok (pm_runs s) (pm_clock s) (rn_seen (pm_runner s)) \<and>
     (\<forall>c j. Running c j \<in># pm_jobs s \<longrightarrow> cmd_id c \<in> snd ` set (pm_runs s))"

lemma admit_Inr_claim:
  assumes "fst (admit w c r) = Inr j"
  shows "cmd_id c \<noteq> []" "fst (claim (he_clock w) (cmd_id c) (rn_seen r))"
proof -
  have "admit w c r = (Inr j, snd (admit w c r))" using assms by (metis prod.collapse)
  then show "cmd_id c \<noteq> []" "fst (claim (he_clock w) (cmd_id c) (rn_seen r))"
    using admit_InrD(2,3) by (cases j; fastforce)+
qed

lemma begin_job_runs_ok:
  assumes "runs_ok (pm_runs s) (pm_clock s) (rn_seen (pm_runner s))" "pm_clock s \<le> he_clock w"
  shows "runs_ok (pm_runs (begin_job w c s)) (he_clock w) (rn_seen (pm_runner (begin_job w c s)))"
proof (cases "fst (admit w c (pm_runner s))")
  case (Inl x)
  then show ?thesis using runs_ok_claim(1) [OF assms] runs_ok_later [OF assms]
    by (simp add: begin_job_runs admit_seen)
next
  case (Inr j)
  then show ?thesis using runs_ok_claim(2) [OF assms] admit_Inr_claim [OF Inr]
    by (simp add: begin_job_runs admit_seen)
qed

lemma runs_step:
  assumes "pump_step e s s'" "runs_inv s"
  shows "runs_inv s'"
  using assms(1)
proof cases
  case (start cmd w)
  have "cmd_id c \<in> snd ` set (pm_runs s')" if "Running c j \<in># pm_jobs s'" for c j
    using that assms(2) start(1)
    by (auto simp: runs_inv_def begin_job_runs begin_job_changes split: sum.splits dest: in_diffD)
  then show ?thesis using begin_job_runs_ok [OF assms(2) [unfolded runs_inv_def, THEN conjunct1] start(3)] start(1)
    by (simp add: runs_inv_def)
qed (use assms(2) in \<open>auto simp: runs_inv_def dest: in_diffD\<close>)

text \<open>A repeated id within the window is refused: its goroutine goes straight to the reply.\<close>

lemma begin_job_repeated:
  assumes "runs_inv s" "(u, cmd_id c) \<in> set (pm_runs s)" "pm_clock s \<le> he_clock w"
    and "he_clock w - u \<le> dedupeWindow"
  shows "fst (admit w c (pm_runner s)) = Inl (Deny (cmd_id c) (reason_token ReasonDuplicateCommandID), [])"
proof -
  have ok: "runs_ok (pm_runs s) (pm_clock s) (rn_seen (pm_runner s))" using assms(1) by (simp add: runs_inv_def)
  have "\<not> fst (claim (he_clock w) (cmd_id c) (rn_seen (pm_runner s)))"
  proof
    assume "fst (claim (he_clock w) (cmd_id c) (rn_seen (pm_runner s)))"
    from runs_ok_allowed [OF ok assms(3) this] assms(2,4) show False
      by (auto simp: allowed_def list_all_iff)
  qed
  moreover have "cmd_id c \<noteq> []" using ok assms(2) by (auto simp: runs_ok_def)
  ultimately show ?thesis by (simp add: admit_def Let_def case_prod_beta)
qed

subsection \<open>Printable results\<close>

definition result_printable :: "result_frame \<Rightarrow> bool" where
  "result_printable r \<longleftrightarrow> (case res_body r of None \<Rightarrow> True | Some t \<Rightarrow> printable t)"

definition printable_inv :: "pump \<Rightarrow> bool" where
  "printable_inv s \<longleftrightarrow> list_all result_printable (pm_replies s) \<and>
     (\<forall>c r. Replying c r \<in># pm_jobs s \<longrightarrow> result_printable r)"

lemma printable_step:
  assumes "pump_step e s s'" "printable_inv s"
  shows "printable_inv s'"
  using assms(1)
proof cases
  case (start cmd w)
  have "result_printable (fst x)" if "fst (admit w cmd (pm_runner s)) = Inl x" for x
  proof -
    have "admit w cmd (pm_runner s) = (Inl (fst x, snd x), snd (admit w cmd (pm_runner s)))"
      using that by (metis prod.collapse)
    from admit_InlD [OF this] show ?thesis by (auto simp: result_printable_def Deny_def)
  qed
  then show ?thesis using assms(2) start(1)
    by (auto simp: printable_inv_def begin_job_changes split: sum.splits dest: in_diffD)
next
  case (settled cmd j w)
  then show ?thesis using assms(2) settle_printable [of w "pm_runner s" cmd j]
    by (auto simp: printable_inv_def result_printable_def dest: in_diffD)
qed (use assms(2) in \<open>auto simp: printable_inv_def dest: in_diffD\<close>)

subsection \<open>Shutdown\<close>

definition closed_inv :: "pump \<Rightarrow> bool" where
  "closed_inv s \<longleftrightarrow> (conn_closed (pm_conn s) \<longleftrightarrow> pm_main s \<noteq> Selecting)"

lemma closed_step: "pump_step e s s' \<Longrightarrow> closed_inv s \<Longrightarrow> closed_inv s'"
  by (erule pump_stepE) (simp_all add: closed_inv_def)

definition job_weight :: "handler \<Rightarrow> nat" where
  "job_weight h = (case h of Started _ \<Rightarrow> 3 | Running _ _ \<Rightarrow> 2 | Replying _ _ \<Rightarrow> 1)"

text \<open>How many steps a closing session has left at most.\<close>

definition drain_measure :: "pump \<Rightarrow> nat" where
  "drain_measure s =
     \<Sum>\<^sub># (image_mset job_weight (pm_jobs s)) +
     (case pm_reader s of Reading \<Rightarrow> 1 | Holding _ \<Rightarrow> 5 | ReaderDone \<Rightarrow> 0) +
     (if pm_ticker s = TickDone then 0 else 1) +
     (case pm_main s of Selecting \<Rightarrow> 2 | Draining _ \<Rightarrow> 1 | Returned _ \<Rightarrow> 0) +
     (if pm_stopped s then 0 else 1)"

lemma drain_decreases:
  assumes "pump_step e s s'" "closed_inv s" "pm_main s \<noteq> Selecting"
  shows "drain_measure s' < drain_measure s"
proof -
  have closed: "conn_closed (pm_conn s)" using assms by (simp add: closed_inv_def)
  from assms(1) show ?thesis
  proof cases
    case (start cmd w)
    then obtain M where "pm_jobs s = add_mset (Started cmd) M" by (blast dest: multi_member_split)
    then show ?thesis using start
      by (simp add: drain_measure_def begin_job_changes job_weight_def split: sum.split)
  next
    case (settled cmd j w)
    then obtain M where "pm_jobs s = add_mset (Running cmd j) M" by (blast dest: multi_member_split)
    then show ?thesis using settled by (simp add: drain_measure_def job_weight_def)
  next
    case (reply cmd res)
    then obtain M where "pm_jobs s = add_mset (Replying cmd res) M" by (blast dest: multi_member_split)
    then show ?thesis using reply by (simp add: drain_measure_def job_weight_def)
  qed (use assms(3) closed in \<open>simp_all add: drain_measure_def job_weight_def\<close>)
qed

lemma drain_stays:
  assumes "pump_step e s s'" "pm_main s \<in> {Draining x, Returned x}"
  shows "pm_main s' \<in> {Draining x, Returned x}"
  using assms by cases auto

lemma drain_progress:
  assumes "pm_main s = Draining x"
  shows "\<exists>s'. pump_step e s s'"
proof -
  have canc: "cancelled s" using assms by (simp add: cancelled_def)
  show ?thesis
  proof (cases "pm_jobs s = {#}")
    case False
    then obtain h where h: "h \<in># pm_jobs s" by blast
    have clock: "pm_clock s \<le> he_clock (quiet_env (pm_clock s))" by (simp add: quiet_env_def)
    show ?thesis
    proof (cases h)
      case (Started c)
      show ?thesis by (rule exI, rule pump_step.start [OF h [unfolded Started] clock])
    next
      case (Running c j)
      show ?thesis by (rule exI, rule pump_step.settled [OF h [unfolded Running]])
    next
      case (Replying c r)
      show ?thesis by (rule exI, rule pump_step.reply [OF h [unfolded Replying]])
    qed
  next
    case True
    note idle = this
    show ?thesis
    proof (cases "pm_reader s")
      case Reading
      show ?thesis by (rule exI, rule pump_step.read [OF Reading])
    next
      case (Holding c)
      show ?thesis by (rule exI, rule pump_step.abandon [OF Holding canc])
    next
      case ReaderDone
      show ?thesis
      proof (cases "pm_ticker s")
        case TickWait
        show ?thesis by (rule exI, rule pump_step.tick_stop [OF TickWait canc])
      next
        case TickPing
        show ?thesis by (rule exI, rule pump_step.ping [OF TickPing])
      next
        case TickDone
        show ?thesis by (rule exI, rule pump_step.main_return [OF assms ReaderDone TickDone idle])
      qed
    qed
  qed
qed

lemma drain_ends:
  "closed_inv s \<Longrightarrow> pm_main s \<in> {Draining x, Returned x} \<Longrightarrow>
     \<exists>s'. rtranclp (pump_step e) s s' \<and> pm_main s' = Returned x"
proof (induction "drain_measure s" arbitrary: s rule: less_induct)
  case less
  show ?case
  proof (cases "pm_main s = Returned x")
    case False
    then have d: "pm_main s = Draining x" using less.prems(2) by simp
    then obtain s1 where s1: "pump_step e s s1" using drain_progress [OF d, of e] by (elim exE) (rule that)
    have "drain_measure s1 < drain_measure s" using drain_decreases [OF s1 less.prems(1)] d by simp
    from less.hyps [OF this closed_step [OF s1 less.prems(1)] drain_stays [OF s1 less.prems(2)]]
    obtain s' where "rtranclp (pump_step e) s1 s'" "pm_main s' = Returned x" by blast
    then show ?thesis using s1 by (meson converse_rtranclp_into_rtranclp)
  qed blast
qed

lemma drain_bound:
  "(pump_step e ^^ n) s s' \<Longrightarrow> closed_inv s \<Longrightarrow> pm_main s \<noteq> Selecting \<Longrightarrow> n + drain_measure s' \<le> drain_measure s"
proof (induction n arbitrary: s)
  case (Suc n)
  from Suc.prems(1) obtain s1 where s1: "pump_step e s s1" "(pump_step e ^^ n) s1 s'"
    using relpowp_Suc_D2 [OF Suc.prems(1)] by (elim exE conjE) (rule that)
  obtain x where "pm_main s \<in> {Draining x, Returned x}" using Suc.prems(3) by (cases "pm_main s") auto
  then have "pm_main s1 \<noteq> Selecting" using drain_stays [OF s1(1)] by fastforce
  from this show ?case
    using Suc.IH [OF s1(2) closed_step [OF s1(1) Suc.prems(2)]] drain_decreases [OF s1(1) Suc.prems(2,3)] by simp
qed simp

end
