(* ===== verification/Run_Properties.thy ===== *)
theory Run_Properties
  imports Run_Loop Pump_Properties Ws_Properties Protocol_Properties
begin

text \<open>
  The properties of the running connector: over every interleaving of one session's
  goroutines, and over the whole sequence of sessions of one process.
\<close>

subsection \<open>One session\<close>

text \<open>The semaphore holds in every interleaving: at no moment are more commands in
  progress than \<open>max_concurrent\<close>, whatever frames arrive, and the queue depth a
  heartbeat reports is within that bound.\<close>

lemma pump_semaphore:
  assumes "rtranclp (pump_step e) (pump_start l r lg cl t) s"
  shows "size (pm_jobs s) \<le> nat (max_concurrent (rn_cfg r)) \<and>
    rn_cfg (pm_runner s) = rn_cfg r \<and>
    0 \<le> hb_queue_depth (heartbeat_of ts s) \<and>
    hb_queue_depth (heartbeat_of ts s) \<le> max 0 (max_concurrent (rn_cfg r))"
proof -
  have "size (pm_jobs s) \<le> max_jobs s \<and> rn_cfg (pm_runner s) = rn_cfg r"
  proof (rule pump_invariant [OF assms])
    show "size (pm_jobs (pump_start l r lg cl t)) \<le> max_jobs (pump_start l r lg cl t) \<and>
        rn_cfg (pm_runner (pump_start l r lg cl t)) = rn_cfg r"
      by (simp add: pump_start_def)
  next
    fix s s'
    assume s: "size (pm_jobs s) \<le> max_jobs s \<and> rn_cfg (pm_runner s) = rn_cfg r" and st: "pump_step e s s'"
    from st s have "rn_cfg (pm_runner s') = rn_cfg r" by cases (simp_all add: admit_keeps)
    then show "size (pm_jobs s') \<le> max_jobs s' \<and> rn_cfg (pm_runner s') = rn_cfg r"
      using jobs_bounded_step [OF st] s by blast
  qed
  then show ?thesis by (auto simp: max_jobs_def heartbeat_of_def)
qed

lemma returned_step:
  assumes "pump_step e s s'" "\<forall>x. pm_main s = Returned x \<longrightarrow>
      pm_jobs s = {#} \<and> pm_reader s = ReaderDone \<and> pm_ticker s = TickDone"
  shows "\<forall>x. pm_main s' = Returned x \<longrightarrow>
      pm_jobs s' = {#} \<and> pm_reader s' = ReaderDone \<and> pm_ticker s' = TickDone"
  using assms by cases auto

text \<open>C5. Every command that took a slot gets exactly one answer and one audit line: at
  any moment the answered ids are among the accepted ones, and when \<open>pump\<close> has returned
  they are the same, with multiplicity; the command lines the session added to the
  audit log then carry exactly the ids, statuses and reasons of the results sent.\<close>

theorem pump_answers_all:
  assumes "rtranclp (pump_step e) (pump_start l r lg cl t) s"
  shows "mset (map res_id (pm_replies s)) \<subseteq># mset (map cmd_id (pm_accepted s)) \<and>
    (case pm_main s of
       Returned x \<Rightarrow> mset (map res_id (pm_replies s)) = mset (map cmd_id (pm_accepted s)) \<and>
         audited (pm_log s) = audited lg + mset (map outcome (pm_replies s))
     | _ \<Rightarrow> True)"
proof -
  have inv: "answers_inv (audited lg) s"
  proof (rule pump_invariant [OF assms])
    show "answers_inv (audited lg) (pump_start l r lg cl t)"
      by (simp add: answers_inv_def answers_ok_def pump_start_def)
  qed (rule answers_step)
  have ret: "\<forall>x. pm_main s = Returned x \<longrightarrow>
      pm_jobs s = {#} \<and> pm_reader s = ReaderDone \<and> pm_ticker s = TickDone"
  proof (rule pump_invariant [OF assms])
    show "\<forall>x. pm_main (pump_start l r lg cl t) = Returned x \<longrightarrow>
      pm_jobs (pump_start l r lg cl t) = {#} \<and> pm_reader (pump_start l r lg cl t) = ReaderDone \<and>
      pm_ticker (pump_start l r lg cl t) = TickDone" by (simp add: pump_start_def)
  qed (rule returned_step)
  from inv have "mset (map cmd_id (pm_accepted s)) = mset (map res_id (pm_replies s)) + image_mset job_id (pm_jobs s)"
    "audited (pm_log s) = audited lg + mset (map outcome (pm_replies s)) + \<Sum>\<^sub># (image_mset answered (pm_jobs s))"
    unfolding answers_inv_def answers_ok_def by blast+
  then show ?thesis using ret by (cases "pm_main s") simp_all
qed

text \<open>C6. Shutdown always ends: once the context is cancelled, an error was reported or
  \<open>pump\<close> is closing, it can run to its return; and from the moment it closes, no
  schedule of the goroutines takes more than \<open>drain_measure\<close> further steps, so it does
  return.\<close>

theorem pump_shutdown_ends:
  assumes "rtranclp (pump_step e) (pump_start l r lg cl t) s" "\<not> conn_closed (lk_conn l)"
  shows "(pm_stopped s \<or> pm_errs s \<noteq> None \<or> pm_main s \<noteq> Selecting \<longrightarrow>
      (\<exists>s' x. rtranclp (pump_step e) s s' \<and> pm_main s' = Returned x)) \<and>
    (pm_main s \<noteq> Selecting \<longrightarrow> (\<forall>n s'. (pump_step e ^^ n) s s' \<longrightarrow> n \<le> drain_measure s \<and>
      ((\<exists>x. pm_main s' = Returned x) \<or> (\<exists>s''. pump_step e s' s''))))"
proof -
  have inv: "closed_inv s"
  proof (rule pump_invariant [OF assms(1)])
    show "closed_inv (pump_start l r lg cl t)" using assms(2) by (simp add: closed_inv_def pump_start_def)
  qed (rule closed_step)
  have ends: "\<exists>s' x. rtranclp (pump_step e) s s' \<and> pm_main s' = Returned x"
    if live: "pm_stopped s \<or> pm_errs s \<noteq> None \<or> pm_main s \<noteq> Selecting"
  proof (cases "pm_main s")
    case Selecting
    then obtain s1 x where s1: "pump_step e s s1" "pm_main s1 = Draining x"
    proof (cases "pm_errs s")
      case None
      then have "pm_stopped s" using live Selecting by simp
      from pump_step.main_stop [OF Selecting this] show thesis by (rule that) simp
    next
      case (Some y)
      from pump_step.main_error [OF Selecting Some] show thesis by (rule that) simp
    qed
    then show ?thesis using drain_ends [OF closed_step [OF s1(1) inv], of x]
      by (metis converse_rtranclp_into_rtranclp insertCI)
  next
    case (Draining x)
    then obtain s' where "rtranclp (pump_step e) s s'" "pm_main s' = Returned x"
      using drain_ends [OF inv, of x e] by auto
    then show ?thesis by blast
  qed auto
  have "n \<le> drain_measure s \<and> ((\<exists>x. pm_main s' = Returned x) \<or> (\<exists>s''. pump_step e s' s''))"
    if "pm_main s \<noteq> Selecting" "(pump_step e ^^ n) s s'" for n s'
  proof -
    have "pm_main s' \<noteq> Selecting"
    proof (rule pump_invariant)
      show "rtranclp (pump_step e) s s'" using that(2) by (rule relpowp_imp_rtranclp)
    next
      fix u u'
      assume "pm_main u \<noteq> Selecting" "pump_step e u u'"
      then show "pm_main u' \<noteq> Selecting" using drain_stays [of e u u'] by (cases "pm_main u") fastforce+
    qed (rule that(1))
    moreover have "n \<le> drain_measure s" using drain_bound [OF that(2) inv that(1)] by simp
    ultimately show ?thesis using drain_progress [of s' _ e] by (cases "pm_main s'") blast+
  qed
  with ends show ?thesis by blast
qed

text \<open>C25. Every frame the connector sends is one line of printable text, whatever bytes the
  broker and the tools produced: no control character, so no newline, is in a result
  that was sent or waits to be sent, in a heartbeat or in the hello.\<close>

theorem frames_printable:
  assumes "rtranclp (pump_step e) (pump_start l r lg cl t) s"
  shows "list_all (\<lambda>f. printable (result_text f)) (pm_replies s) \<and>
    (\<forall>c f. Replying c f \<in># pm_jobs s \<longrightarrow> printable (result_text f)) \<and>
    printable (heartbeat_text (heartbeat_of ts s)) \<and> printable (hello_text (hello_of tw r))"
proof -
  have "printable_inv s"
  proof (rule pump_invariant [OF assms])
    show "printable_inv (pump_start l r lg cl t)" by (simp add: printable_inv_def pump_start_def)
  qed (rule printable_step)
  then show ?thesis using frame_texts_printable
    by (auto simp: printable_inv_def result_printable_def list_all_iff)
qed

subsection \<open>The whole process\<close>

lemma run_done_final: "rs_done s \<Longrightarrow> \<not> run_turn t s s'"
  by (auto elim: run_turnE)

lemma serves_runs:
  assumes "serves w s p x" "runs_ok (rs_runs s) (rs_clock s) (rn_seen (rs_runner s))"
  shows "runs_ok (pm_runs p) (pm_clock p) (rn_seen (pm_runner p))"
proof -
  from assms(1) obtain l r lg where e: "establish w (rs_runner s) (rs_log s) = (Inr l, r, lg)"
    and p: "rtranclp (pump_step (pump_env_of w l)) (pump_start l r lg (rs_runs s) (rs_clock s)) p"
    by (auto simp: serves_def)
  have "runs_inv p"
  proof (rule pump_invariant [OF p])
    show "runs_inv (pump_start l r lg (rs_runs s) (rs_clock s))"
      using assms(2) establish_keeps(4) [OF e] by (simp add: runs_inv_def pump_start_def)
  qed (rule runs_step)
  then show ?thesis by (simp add: runs_inv_def)
qed

lemma run_runs_step:
  assumes "run_turn t s s'" "runs_ok (rs_runs s) (rs_clock s) (rn_seen (rs_runner s))"
  shows "runs_ok (rs_runs s') (rs_clock s') (rn_seen (rs_runner s'))"
  using assms(1) by cases (use assms(2) serves_runs in \<open>auto dest: establish_keeps(4)\<close>)

text \<open>C3. No replay, over the life of the process, across every interleaving and every
  reconnect: two runs of commands with one id are more than ten minutes apart; a
  command in execution is one of these runs; and a command whose id ran within the last
  ten minutes does not run, but is answered with the duplicate denial.\<close>

theorem no_command_replayed:
  assumes "New tw cfg ver = Inr r0" "rtranclp run_step (run_start r0 lg0 t0) s"
    and "establish w (rs_runner s) (rs_log s) = (Inr l, r, lg)"
    and "rtranclp (pump_step e) (pump_start l r lg (rs_runs s) (rs_clock s)) p"
  shows "sorted_wrt (\<lambda>(t, i) (u, j). i = j \<longrightarrow> dedupeWindow < t - u) (pm_runs p) \<and>
    (\<forall>c j. Running c j \<in># pm_jobs p \<longrightarrow> (\<exists>t. (t, cmd_id c) \<in> set (pm_runs p))) \<and>
    (\<forall>c h u. (u, cmd_id c) \<in> set (pm_runs p) \<longrightarrow> pm_clock p \<le> he_clock h \<longrightarrow>
       he_clock h - u \<le> dedupeWindow \<longrightarrow>
       pm_runs (begin_job h c p) = pm_runs p \<and>
       pm_jobs (begin_job h c p) =
         add_mset (Replying c (Deny (cmd_id c) (reason_token ReasonDuplicateCommandID))) (pm_jobs p - {#Started c#}))"
proof -
  have "runs_ok (rs_runs s) (rs_clock s) (rn_seen (rs_runner s))"
    using assms(2)
  proof (induction rule: rtranclp_induct)
    case base
    show ?case using runs_ok_start New_InrD(2) [OF assms(1)] by (simp add: run_start_def)
  qed (auto simp: run_step_def dest: run_runs_step)
  then have start: "runs_inv (pump_start l r lg (rs_runs s) (rs_clock s))"
    using establish_keeps(4) [OF assms(3)] by (simp add: runs_inv_def pump_start_def)
  have inv: "runs_inv p" by (rule pump_invariant [where P = runs_inv, OF assms(4) start]) (rule runs_step)
  then have "spaced (pm_runs p)" "\<forall>c j. Running c j \<in># pm_jobs p \<longrightarrow> cmd_id c \<in> snd ` set (pm_runs p)"
    by (auto simp: runs_inv_def runs_ok_def)
  then show ?thesis using begin_job_repeated [OF inv]
    by (fastforce simp: spaced_def begin_job_runs begin_job_changes)
qed

text \<open>C39. The wait before a reconnect: at least half a second, and below the cap of the
  attempt plus half a second; the cap doubles from half a second and stops at 60
  seconds, so the longest wait is just under 60.5 seconds, above the cap itself.\<close>

theorem backoff_bounds:
  assumes "\<forall>n > 0. 0 \<le> f n \<and> f n < n"
  shows "backoffMin \<le> backoff f k \<and> backoff f k < backoff_cap k + backoffMin \<and>
    backoff_cap k = min (2 ^ (k - 1) * backoffMin) backoffMax \<and>
    backoff (\<lambda>n. n - 1) 8 = backoffMax + backoffMin - 1"
proof -
  note cap = backoff_cap_bounds [of k]
  then have f: "0 \<le> f (backoff_cap k)" "f (backoff_cap k) < backoff_cap k"
    using assms by (simp_all add: backoffMin_def)
  then have "int64 (f (backoff_cap k) + backoffMin) = f (backoff_cap k) + backoffMin"
    using cap by (intro int64_id)
      (simp add: in_int64_def int64_min_def int64_max_def backoffMin_def backoffMax_def)
  moreover have "backoff_cap k = min (2 ^ (k - 1) * backoffMin) backoffMax"
  proof (cases "k - 1 \<le> 12")
    case True
    then have "(2::int) ^ (k - 1) \<le> 2 ^ 12" by (intro power_increasing) simp_all
    moreover have "(0::int) \<le> 2 ^ (k - 1)" by simp
    moreover have "in_int64 (y * backoffMin)" if "y \<le> 2 ^ 12" "0 \<le> y" for y
      using that by (simp add: in_int64_def int64_min_def int64_max_def backoffMin_def)
    ultimately have "in_int64 (2 ^ (k - 1) * backoffMin)" by blast
    then have "int64 (push_bit (k - 1) backoffMin) = 2 ^ (k - 1) * backoffMin"
      by (simp add: push_bit_eq_mult mult.commute int64_id)
    then show ?thesis using True by (simp add: backoff_cap_def Let_def min_def)
  next
    case False
    then have "(2::int) ^ 12 \<le> 2 ^ (k - 1)" by (intro power_increasing) simp_all
    then have "backoffMax < 2 ^ (k - 1) * backoffMin" by (simp add: backoffMin_def backoffMax_def)
    moreover have "backoff_cap k = backoff_cap 13" using False by (simp add: backoff_cap_def min_def)
    moreover have "backoff_cap 13 = backoffMax" by code_simp
    ultimately show ?thesis by simp
  qed
  moreover have "backoff (\<lambda>n. n - 1) 8 = backoffMax + backoffMin - 1" by code_simp
  ultimately show ?thesis using f by (simp add: backoff_def)
qed

text \<open>The reconnects a log announces, and what one turn should announce.\<close>

definition reconnects :: "audit_log \<Rightarrow> audit_log" where
  "reconnects = filter (\<lambda>(t, e). e_event e = ''reconnect_scheduled'')"

definition scheduled :: "nat \<Rightarrow> turn \<Rightarrow> audit_log" where
  "scheduled k t =
     (case t of
        Ended \<Rightarrow> []
      | Failed w err v \<Rightarrow> [(we_now v, reconnect_entry v (Some err) (backoff (we_int63n v) k) k)]
      | Served w x v \<Rightarrow> [(we_now v, reconnect_entry v x (backoff (we_int63n v) k) k)])"

text \<open>
  How many turns the current streak of failures has: the turns at the end without a
  session, and the one before them, whose session ended.
\<close>

definition is_failed :: "turn \<Rightarrow> bool" where
  "is_failed t \<longleftrightarrow> (case t of Failed w err v \<Rightarrow> True | _ \<Rightarrow> False)"

definition attempts :: "turn list \<Rightarrow> nat" where
  "attempts ts = (let n = length (takeWhile is_failed (rev ts)) in if n < length ts then Suc n else n)"

lemma attempts_snoc:
  "attempts [] = 0" "is_failed t \<Longrightarrow> attempts (ts @ [t]) = Suc (attempts ts)"
  "\<not> is_failed t \<Longrightarrow> attempts (ts @ [t]) = 1"
  by (simp_all add: attempts_def Let_def)

lemma concat_prefixes_snoc:
  "concat (map (\<lambda>i. f (take (Suc i) (ts @ [t])) ((ts @ [t]) ! i)) [0..<length (ts @ [t])]) =
     concat (map (\<lambda>i. f (take (Suc i) ts) (ts ! i)) [0..<length ts]) @ f (ts @ [t]) t"
proof -
  have "map (\<lambda>i. f (take (Suc i) (ts @ [t])) ((ts @ [t]) ! i)) [0..<length ts] =
      map (\<lambda>i. f (take (Suc i) ts) (ts ! i)) [0..<length ts]"
    by (rule map_cong) (simp_all add: nth_append)
  then have "concat (map (\<lambda>i. f (take (Suc i) (ts @ [t])) ((ts @ [t]) ! i)) [0..<length ts]) =
      concat (map (\<lambda>i. f (take (Suc i) ts) (ts ! i)) [0..<length ts])" by (rule arg_cong)
  then show ?thesis by (simp del: take_append take_Suc)
qed

lemma reconnects_append [simp]: "reconnects (a @ b) = reconnects a @ reconnects b"
  by (simp add: reconnects_def)

lemma reconnects_other:
  "list_all (\<lambda>(t, y). e_event y \<noteq> ''reconnect_scheduled'') x \<Longrightarrow> reconnects x = []"
  by (auto simp: reconnects_def filter_empty_conv list_all_iff)

lemma reconnects_entry [simp]:
  "reconnects [(t, reconnect_entry v x d n)] = [(t, reconnect_entry v x d n)]"
  "reconnects [(t, command_entry w i c r d')] = []" "reconnects [] = []"
  by (simp_all add: reconnects_def reconnect_entry_def command_entry_def zero_entry_def)

lemma reconnects_read: "reconnects (pm_log (read_once e now t s)) = reconnects (pm_log s)"
proof -
  obtain x where "pm_log (read_once e now t s) = pm_log s @ x"
    "list_all (\<lambda>(t, y). e_event y \<in> {''frame_dropped'', ''frame_ignored''}) x"
    using read_once_log [of e now t s] by blast
  moreover from this(2) have "reconnects x = []" by (intro reconnects_other) (auto simp: list_all_iff)
  ultimately show ?thesis by simp
qed

lemma reconnects_establish:
  "establish w r lg = (x, r', lg') \<Longrightarrow> reconnects lg' = reconnects lg"
  by (auto simp: establish_def Let_def reconnects_def connected_entry_def zero_entry_def
      split: sum.splits prod.splits bool.splits option.splits if_splits)

lemma reconnects_step:
  "pump_step e s s' \<Longrightarrow> reconnects (pm_log s) = lg \<Longrightarrow> reconnects (pm_log s') = lg"
proof (erule pump_stepE)
qed (simp_all add: reconnects_read begin_job_changes split: sum.split)

lemma reconnects_serves: "serves w s p x \<Longrightarrow> reconnects (pm_log p) = reconnects (rs_log s)"
  unfolding serves_def
proof (elim exE conjE)
  fix l r lg
  assume e: "establish w (rs_runner s) (rs_log s) = (Inr l, r, lg)"
    and p: "rtranclp (pump_step (pump_env_of w l)) (pump_start l r lg (rs_runs s) (rs_clock s)) p"
  show "reconnects (pm_log p) = reconnects (rs_log s)"
  proof (rule pump_invariant [OF p])
    show "reconnects (pm_log (pump_start l r lg (rs_runs s) (rs_clock s))) = reconnects (rs_log s)"
      using reconnects_establish [OF e] by (simp add: pump_start_def)
  qed (erule reconnects_step)
qed

text \<open>One turn: the attempt it leaves, the one line it announces, and what it stands for.\<close>

definition turn_true :: "turn \<Rightarrow> run_state \<Rightarrow> bool" where
  "turn_true t s \<longleftrightarrow>
     (case t of
        Ended \<Rightarrow> True
      | Failed w err v \<Rightarrow> fst (establish w (rs_runner s) (rs_log s)) = Inl err
      | Served w x v \<Rightarrow> (\<exists>p. serves w s p x))"

lemma run_turn_schedules:
  assumes "run_turn t s s'"
  shows "rs_done s' \<longleftrightarrow> t = Ended" "turn_true t s"
    and "t \<noteq> Ended \<Longrightarrow> rs_attempt s' = (if is_failed t then Suc (rs_attempt s) else 1)"
    and "reconnects (rs_log s') = reconnects (rs_log s) @ scheduled (if is_failed t then Suc (rs_attempt s) else 1) t"
  using assms
  by (cases; auto simp: schedule_def Let_def is_failed_def turn_true_def scheduled_def
      dest: reconnects_establish reconnects_serves)+

text \<open>C40. The backoff follows the failures, over the whole life of the process: the
  reconnects its log announces are, in order, exactly one for each turn of the loop that
  did not end it, with the token and text of the error that turn really ended with, and
  the number and wait of the attempt, which is the length of the current streak: the
  failures since the last session that came up, plus one for that session's end. Only a
  cancellation ends the loop, and nothing follows it.\<close>

theorem reconnect_schedule:
  assumes "run_turns ts (run_start r0 lg0 t0) s"
  shows "reconnects (rs_log s) = reconnects lg0 @
      concat (map (\<lambda>i. scheduled (attempts (take (Suc i) ts)) (ts ! i)) [0..<length ts]) \<and>
    (\<forall>i < length ts. \<exists>u. run_turns (take i ts) (run_start r0 lg0 t0) u \<and> turn_true (ts ! i) u) \<and>
    (\<forall>i < length ts. ts ! i = Ended \<longrightarrow> Suc i = length ts) \<and>
    (rs_done s \<longleftrightarrow> ts \<noteq> [] \<and> last ts = Ended) \<and>
    (\<not> rs_done s \<longrightarrow> rs_attempt s = attempts ts)"
  using assms
proof (induction ts "run_start r0 lg0 t0" s rule: run_turns.induct)
  case none
  then show ?case by (simp add: run_start_def attempts_def)
next
  case (more ts s t s')
  note turn = run_turn_schedules [OF more(3)]
  have live: "\<not> rs_done s" using run_done_final more(3) by blast
  have no_end: "ts ! i \<noteq> Ended" if "i < length ts" for i
  proof
    assume e: "ts ! i = Ended"
    then have "Suc i = length ts" using more(2) that by blast
    then have "last ts = ts ! i" using that by (metis diff_Suc_1 last_conv_nth list.size(3) not_less_zero)
    then show False using more(2) live e that by auto
  qed
  show ?case
  proof (intro conjI)
    have att: "(if is_failed t then Suc (rs_attempt s) else 1) = attempts (ts @ [t])"
      using more(2) live by (simp add: attempts_snoc)
    show "reconnects (rs_log s') = reconnects lg0 @ concat (map (\<lambda>i. scheduled (attempts (take (Suc i) (ts @ [t]))) ((ts @ [t]) ! i))
        [0..<length (ts @ [t])])"
      using more(2) turn(4) unfolding att concat_prefixes_snoc [where f = "\<lambda>x. scheduled (attempts x)"] by simp
    show "\<not> rs_done s' \<longrightarrow> rs_attempt s' = attempts (ts @ [t])"
      using turn(1,3) unfolding att by blast
    show "\<forall>i < length (ts @ [t]). \<exists>u. run_turns (take i (ts @ [t])) (run_start r0 lg0 t0) u \<and> turn_true ((ts @ [t]) ! i) u"
      using more(1,2) turn(2) by (auto simp: nth_append less_Suc_eq)
    show "\<forall>i < length (ts @ [t]). (ts @ [t]) ! i = Ended \<longrightarrow> Suc i = length (ts @ [t])"
      using no_end by (auto simp: nth_append less_Suc_eq)
    show "rs_done s' \<longleftrightarrow> ts @ [t] \<noteq> [] \<and> last (ts @ [t]) = Ended" using turn(1) by simp
  qed
qed

subsection \<open>Coming up\<close>

lemma Dial_open: "fst (Dial w opts) = Inr c \<Longrightarrow> \<not> conn_closed c"
  by (auto simp: Dial_def Let_def new_conn_def split: option.splits sum.splits if_splits)

lemma writeFrame_open: "writeFrame w op p c = (b, c') \<Longrightarrow> conn_closed c' = conn_closed c"
  using writeFrame_closed [of w op p c] by simp

lemma establish_InrD:
  assumes "establish w r lg = (Inr l, r', lg')"
  obtains c0 c1 raw hi where "fst (Dial (le_dial w) (dial_options_of r)) = Inr c0"
    "WriteText (le_conn w) (octets (hello_text (hello_of (le_teamcity w) r))) c0 = (True, c1)"
    "ReadMessage (le_conn w) c1 (le_input w) = (Inr raw, lk_conn l, lk_input l)"
    "DecodeEnvelope (chars raw) = Inr TypeWelcome" "decode_welcome (chars raw) = Some hi"
    "lk_heartbeat l = negotiated_heartbeat (welcome_heartbeat hi)"
    "r' = r\<lparr>rn_session := welcome_session hi\<rparr>"
    "lg' = lg @ [(le_now w, connected_entry w (welcome_session hi) (lk_heartbeat l))]"
  using assms
  by (auto simp: establish_def Let_def split: sum.splits prod.splits bool.splits option.splits if_splits)

text \<open>C37. A session comes up only after the whole handshake: the dial succeeded, the hello
  frame was written, and the first message is a welcome; the session id is the
  broker's, the socket is open, exactly one log line was added, and the heartbeat is
  the broker's number of seconds when that is between 5 and 120 and 25 seconds
  otherwise (as long as the number fits a duration), so always in that range.\<close>

theorem session_comes_up:
  assumes "establish w r lg = (Inr l, r', lg')"
  shows "\<not> conn_closed (lk_conn l) \<and> length lg' = Suc (length lg) \<and>
    (\<exists>c0 c1 raw hi. fst (Dial (le_dial w) (dial_options_of r)) = Inr c0 \<and>
      WriteText (le_conn w) (octets (hello_text (hello_of (le_teamcity w) r))) c0 = (True, c1) \<and>
      fst (ReadMessage (le_conn w) c1 (le_input w)) = Inr raw \<and>
      DecodeEnvelope (chars raw) = Inr TypeWelcome \<and> decode_welcome (chars raw) = Some hi \<and>
      rn_session r' = welcome_session hi \<and>
      minHeartbeat \<le> lk_heartbeat l \<and> lk_heartbeat l \<le> maxHeartbeat \<and>
      (in_int64 (welcome_heartbeat hi * 10 ^ 9) \<longrightarrow>
        lk_heartbeat l = (if 5 \<le> welcome_heartbeat hi \<and> welcome_heartbeat hi \<le> 120
          then welcome_heartbeat hi * 10 ^ 9 else defaultHeartbeat)))"
proof -
  from assms obtain c0 c1 raw hi where e: "fst (Dial (le_dial w) (dial_options_of r)) = Inr c0"
    "WriteText (le_conn w) (octets (hello_text (hello_of (le_teamcity w) r))) c0 = (True, c1)"
    "ReadMessage (le_conn w) c1 (le_input w) = (Inr raw, lk_conn l, lk_input l)"
    "DecodeEnvelope (chars raw) = Inr TypeWelcome" "decode_welcome (chars raw) = Some hi"
    "lk_heartbeat l = negotiated_heartbeat (welcome_heartbeat hi)"
    "r' = r\<lparr>rn_session := welcome_session hi\<rparr>"
    "lg' = lg @ [(le_now w, connected_entry w (welcome_session hi) (lk_heartbeat l))]"
    by (rule establish_InrD)
  have "\<not> conn_closed (lk_conn l)"
    using Dial_open [OF e(1)] writeFrame_open [OF e(2) [unfolded WriteText_def]] ReadMessage_closed [OF e(3)] by simp
  moreover have "negotiated_heartbeat x = (if 5 \<le> x \<and> x \<le> 120 then x * 10 ^ 9 else defaultHeartbeat)"
    if "in_int64 (x * 10 ^ 9)" for x
    using int64_id [OF that] by (auto simp: negotiated_heartbeat_def Let_def minHeartbeat_def maxHeartbeat_def)
  ultimately show ?thesis using e negotiated_heartbeat_bounds [of "welcome_heartbeat hi"]
    by (intro conjI exI [of _ c0] exI [of _ c1] exI [of _ raw] exI [of _ hi]) simp_all
qed

subsection \<open>Witnesses\<close>

text \<open>A broker that accepts, welcomes, and then sends nothing.\<close>

definition hi_text :: string where
  "hi_text = json_object [(''type'', quote_json ''welcome''), (''session_id'', quote_json ''s1'')]"

definition sample_world :: link_env where
  "sample_world = \<lparr>le_dial = good_dial, le_conn = good_env,
     le_input = sent_events (True, opText, None, octets hi_text), le_teamcity = quiet_tc,
     le_now = \<lparr>at_stamp = ''now'', at_day = ''today''\<rparr>, le_duration = (\<lambda>_. ''25s'')\<rparr>"

lemma chars_octets [simp]: "chars (octets s) = s"
proof -
  have "char_of (unat (of_char c :: octet)) = c" for c
  proof -
    have "unat (of_char c :: octet) = unat (of_nat (of_char c) :: octet)" by (simp add: of_nat_of_char)
    then show ?thesis by (simp only: unat_of_nat) simp
  qed
  then show ?thesis by (simp add: chars_def octets_def comp_def)
qed

lemma hi_decodes:
  "DecodeEnvelope hi_text = Inr TypeWelcome"
  "decode_welcome hi_text = Some \<lparr>welcome_session = ''s1'', welcome_server_time = [], welcome_min_version = [],
     welcome_heartbeat = 0\<rparr>"
proof -
  let ?ms = "[(''type'', quote_json ''welcome'', JStr ''welcome''), (''session_id'', quote_json ''s1'', JStr ''s1'')]"
  have "members_in 0 ?ms" by (simp add: valid_utf8_ascii encodes_in_string)
  from frame_members_object [OF this] have fm: "frame_members hi_text = Some ?ms"
    by (simp add: hi_text_def max_nesting_def)
  have f: "field_of [''type''] ''session_id'' = None" by code_simp
  show "DecodeEnvelope hi_text = Inr TypeWelcome"
    unfolding DecodeEnvelope_def fm
    by (simp add: field_bad_def field_value_def f any_type_error_def as_string_def TypeWelcome_def)
  show "decode_welcome hi_text = Some \<lparr>welcome_session = ''s1'', welcome_server_time = [], welcome_min_version = [],
     welcome_heartbeat = 0\<rparr>"
    unfolding decode_welcome_def fm Let_def
    by (simp add: field_bad_def field_value_def welcome_fields_def any_type_error_def as_string_def as_int_def)
qed

text \<open>The same broker, which sends more after its welcome.\<close>

definition world_then :: "event list \<Rightarrow> link_env" where
  "world_then es = sample_world\<lparr>le_input := le_input sample_world @ es\<rparr>"

lemma world_then_up:
  "\<exists>l r lg'. establish (world_then es) sample_runner lg = (Inr l, r, lg') \<and>
     lk_input l = es \<and> \<not> conn_closed (lk_conn l) \<and> r = sample_runner\<lparr>rn_session := ''s1''\<rparr>"
proof -
  have eq: "EqualFold ''WebSocket'' ''websocket''" by code_simp
  have dial: "fst (Dial good_dial (dial_options_of sample_runner)) = Inr (new_conn 0)"
    using eq by (simp add: Dial_def good_dial_def dial_options_of_def sample_runner_def sample_config_def
        wss_url_def dial_roots_def check_response_def AcceptKey_def Let_def)
  obtain c1 where hello: "WriteText good_env (octets (hello_text (hello_of quiet_tc sample_runner))) (new_conn 0) = (True, c1)"
    by (simp add: WriteText_def writeFrame_healthy [OF good_healthy])
  have "\<not> conn_closed c1" using writeFrame_open [OF hello [unfolded WriteText_def]] by (simp add: new_conn_def)
  then have opened: "\<not> conn_closed (touch good_env c1)" by (simp add: touch_def)
  have "length hi_text \<le> 100" by (simp add: hi_text_def) code_simp
  then have len: "length (octets hi_text) \<le> MaxMessageBytes" by (simp add: octets_def MaxMessageBytes_def)
  then have "frame_ok (True, opText, None, octets hi_text)"
    by (simp add: frame_ok_def opcodes_def) (simp add: op_defs)
  from read_loop_frame [OF this, of good_env "[]" c1 es] len
  have read: "ReadMessage good_env c1 (sent_events (True, opText, None, octets hi_text) @ es) =
      (Inr (octets hi_text), touch good_env c1, es)"
    by (simp add: ReadMessage_def Let_def)
  show ?thesis using opened
    by (simp add: establish_def world_then_def sample_world_def dial hello read hi_decodes Let_def)
qed

lemma sample_up: "\<exists>l r lg'. establish sample_world sample_runner lg = (Inr l, r, lg')"
  using world_then_up [of "[]" lg] by (auto simp: world_then_def sample_world_def)

theorem session_comes_up_witness:
  "\<exists>l r lg. establish sample_world sample_runner [] = (Inr l, r, lg) \<and> \<not> conn_closed (lk_conn l) \<and> length lg = 1"
proof -
  obtain l r lg where e: "establish sample_world sample_runner [] = (Inr l, r, lg)" using sample_up by blast
  from session_comes_up [OF e] e show ?thesis by auto
qed

definition idle_link :: link where
  "idle_link = \<lparr>lk_conn = new_conn 0, lk_input = [], lk_heartbeat = defaultHeartbeat\<rparr>"

definition idle_pump :: pump where
  "idle_pump = pump_start idle_link sample_runner [] [] 0"

definition idle_env :: pump_env where
  "idle_env = \<lparr>pe_conn = good_env, pe_heartbeat = defaultHeartbeat\<rparr>"

text \<open>A session in which one command frame arrives.\<close>

definition busy_link :: link where
  "busy_link = \<lparr>lk_conn = new_conn 0,
     lk_input = sent_events (True, opText, None, octets (command_text (describe_command ''c1''))),
     lk_heartbeat = defaultHeartbeat\<rparr>"

definition busy_pump :: pump where
  "busy_pump = pump_start busy_link sample_runner [] [] 0"

lemma describe_decodes:
  "DecodeEnvelope (command_text (describe_command ''c1'')) = Inr TypeCommand"
  "decode_command (command_text (describe_command ''c1'')) = Some (describe_command ''c1'')"
proof -
  let ?c = "describe_command ''c1''"
  let ?v = "JObj [(''change'', Itoa 7, JNum (Itoa 7))]"
  have "members_in 0 [(''change'', Itoa 7, JNum (Itoa 7))]"
    by (simp add: valid_utf8_ascii encodes_in_int)
  from encodes_in_object [OF this] have args: "encodes_in 1 (cmd_args ?c) ?v"
    by (simp add: describe_command_def)
  have ok: "command_ok ?c"
    by (simp add: command_ok_def describe_command_def TypeCommand_def valid_utf8_ascii in_int64_def
        int64_min_def int64_max_def)
  have "members_in 1 (command_members ?c ?v)"
    using ok args by (simp add: command_members_def command_ok_def valid_utf8_ascii encodes_in_string encodes_in_int)
  moreover have "command_text ?c = json_object (texts (command_members ?c ?v))"
    by (simp add: command_text_def command_members_def)
  ultimately have fm: "frame_members (command_text ?c) = Some (command_members ?c ?v)"
    using frame_members_object [of 1 "command_members ?c ?v"] by (simp add: max_nesting_def)
  have num: "ParseInt (Itoa 0) = Some 0" by (rule ParseInt_Itoa) (simp add: in_int64_def int64_min_def int64_max_def)
  have raw: "raw_for command_fields ''args'' (command_members ?c ?v) = cmd_args ?c"
    by (simp add: raw_for_def members_for_def command_members_def command_fields_def)
  show "DecodeEnvelope (command_text ?c) = Inr TypeCommand"
    unfolding DecodeEnvelope_def fm
    by (simp add: field_bad_def field_value_def command_members_def fold_ne any_type_error_def as_string_def)
      (simp add: describe_command_def TypeCommand_def)
  show "decode_command (command_text ?c) = Some ?c"
    unfolding decode_command_def fm Let_def
    by (simp add: raw) (simp add: field_bad_def field_value_def command_members_def command_fields_def
        any_type_error_def as_string_def as_int_def num describe_command_def)
qed

lemma stopped_drains:
  assumes "pm_main s = Selecting" "\<not> pm_stopped s"
  shows "\<exists>s'. rtranclp (pump_step e) s s' \<and> pm_main s' = Returned None"
proof -
  let ?s1 = "s\<lparr>pm_stopped := True\<rparr>"
  have s1: "pump_step e s ?s1" by (rule pump_step.stop [OF assms(2)])
  have "pump_step e ?s1 (close_pump e None ?s1)" by (rule pump_step.main_stop) (simp_all add: assms(1))
  with s1 have star: "rtranclp (pump_step e) s (close_pump e None ?s1)"
    by (meson converse_rtranclp_into_rtranclp r_into_rtranclp)
  have "\<exists>s'. rtranclp (pump_step e) (close_pump e None ?s1) s' \<and> pm_main s' = Returned None"
    by (rule drain_ends) (simp_all add: closed_inv_def)
  with star show ?thesis by (meson rtranclp_trans)
qed

text \<open>The frame is read and takes a slot.\<close>

definition describe_events :: "event list" where
  "describe_events = sent_events (True, opText, None, octets (command_text (describe_command ''c1'')))"

lemma describe_arrives:
  assumes "pm_reader s = Reading" "pm_input s = describe_events" "\<not> conn_closed (pm_conn s)"
    and "pe_conn e = good_env" "size (pm_jobs s) < max_jobs s"
  shows "\<exists>s'. rtranclp (pump_step e) s s' \<and> pm_accepted s' = pm_accepted s @ [describe_command ''c1''] \<and>
     pm_jobs s' = add_mset (Started (describe_command ''c1'')) (pm_jobs s) \<and> pm_main s' = pm_main s \<and>
     pm_stopped s' = pm_stopped s \<and> pm_runner s' = pm_runner s \<and> pm_runs s' = pm_runs s \<and>
     pm_clock s' = pm_clock s \<and> pm_replies s' = pm_replies s"
proof -
  let ?c = "describe_command ''c1''"
  let ?p = "octets (command_text ?c)"
  let ?t = "\<lparr>at_stamp = [], at_day = []\<rparr> :: instant"
  have "length (command_text ?c) \<le> 1000"
    by (simp add: command_text_def describe_command_def) code_simp
  then have len: "length ?p \<le> MaxMessageBytes" by (simp add: octets_def MaxMessageBytes_def)
  then have "frame_ok (True, opText, None, ?p)" by (simp add: frame_ok_def opcodes_def) (simp add: op_defs)
  from read_loop_frame [OF this, of good_env "[]" "pm_conn s" "[]"] len
  have rd: "ReadMessage good_env (pm_conn s) describe_events = (Inr ?p, touch good_env (pm_conn s), [])"
    by (simp add: ReadMessage_def Let_def describe_events_def)
  define s1 where "s1 = read_once e 0 ?t s"
  define s2 where "s2 = s1\<lparr>pm_reader := Reading, pm_jobs := add_mset (Started ?c) (pm_jobs s1),
      pm_accepted := pm_accepted s1 @ [?c]\<rparr>"
  have hold: "pm_reader s1 = Holding ?c"
    by (simp add: s1_def read_once_def assms rd describe_decodes)
  have "max_jobs s1 = max_jobs s" by (simp add: s1_def)
  then have "pump_step e s1 s2" unfolding s2_def
    by (intro pump_step.acquire hold) (simp add: s1_def assms(5))
  moreover have "pump_step e s s1" unfolding s1_def by (rule pump_step.read [OF assms(1)])
  ultimately have "rtranclp (pump_step e) s s2"
    by (meson converse_rtranclp_into_rtranclp r_into_rtranclp)
  then show ?thesis by (intro exI [of _ s2]) (simp add: s2_def s1_def)
qed

lemma busy_accepts:
  "\<exists>s. rtranclp (pump_step idle_env) busy_pump s \<and> pm_accepted s = [describe_command ''c1''] \<and>
     pm_jobs s = {#Started (describe_command ''c1'')#} \<and> pm_main s = Selecting \<and> \<not> pm_stopped s \<and>
     pm_runner s = sample_runner \<and> pm_runs s = [] \<and> pm_clock s = 0 \<and> pm_replies s = []"
proof -
  have "\<exists>s. rtranclp (pump_step idle_env) busy_pump s \<and>
     pm_accepted s = pm_accepted busy_pump @ [describe_command ''c1''] \<and>
     pm_jobs s = add_mset (Started (describe_command ''c1'')) (pm_jobs busy_pump) \<and> pm_main s = pm_main busy_pump \<and>
     pm_stopped s = pm_stopped busy_pump \<and> pm_runner s = pm_runner busy_pump \<and> pm_runs s = pm_runs busy_pump \<and>
     pm_clock s = pm_clock busy_pump \<and> pm_replies s = pm_replies busy_pump"
    by (rule describe_arrives)
      (simp_all add: busy_pump_def pump_start_def busy_link_def idle_env_def new_conn_def describe_events_def
        max_jobs_def sample_runner_def sample_config_def)
  then show ?thesis by (simp add: busy_pump_def pump_start_def busy_link_def)
qed

text \<open>It is admitted, and so runs.\<close>

lemma describe_starts:
  assumes "pm_jobs s = {#Started (describe_command ''c1'')#}" "rn_cfg (pm_runner s) = sample_config"
    and "rn_seen (pm_runner s) = []" "pm_clock s = 0"
  shows "\<exists>s'. pump_step e s s' \<and> pm_runs s' = (0, ''c1'') # pm_runs s \<and> pm_clock s' = 0 \<and>
     (\<exists>j. pm_jobs s' = {#Running (describe_command ''c1'') j#}) \<and> pm_replies s' = pm_replies s"
proof -
  let ?s = "begin_job (quiet_env 0) (describe_command ''c1'') s"
  have clock: "he_clock (quiet_env 0) = 0" by (simp add: quiet_env_def)
  have "pump_step e s ?s" by (rule pump_step.start) (simp_all add: assms clock)
  moreover have "cmd_id (describe_command ''c1'') = ''c1''" by (simp add: describe_command_def)
  ultimately show ?thesis
    using describe_admitted [OF assms(2,3), of 0 "CHR ''c''" "''1''"] clock
    by (intro exI [of _ ?s]) (simp add: begin_job_runs begin_job_changes assms(1))
qed

theorem pump_answers_all_witness:
  "\<exists>s. pm_main s = Returned None \<and> rtranclp (pump_step idle_env) busy_pump s \<and> pm_accepted s \<noteq> [] \<and>
     mset (map res_id (pm_replies s)) = mset (map cmd_id (pm_accepted s))"
proof -
  obtain s0 where s0: "rtranclp (pump_step idle_env) busy_pump s0" "pm_accepted s0 = [describe_command ''c1'']"
      "pm_main s0 = Selecting" "\<not> pm_stopped s0" using busy_accepts by (elim exE conjE) (rule that)
  from stopped_drains [OF s0(3,4)] obtain s where
    s: "rtranclp (pump_step idle_env) s0 s" "pm_main s = Returned None" by blast
  have "pm_accepted s \<noteq> []"
  proof (rule pump_invariant [OF s(1)])
    fix u u'
    assume "pm_accepted u \<noteq> []" "pump_step idle_env u u'"
    then show "pm_accepted u' \<noteq> []" by (auto elim: pump_stepE)
  qed (simp add: s0(2))
  moreover have "rtranclp (pump_step idle_env) busy_pump s" using s0(1) s(1) by (rule rtranclp_trans)
  ultimately show ?thesis using pump_answers_all [of idle_env busy_link sample_runner "[]" "[]" 0 s] s(2)
    by (auto simp: busy_pump_def)
qed

theorem pump_shutdown_ends_witness:
  "\<exists>s'. (\<exists>x. pm_main s' = Returned x) \<and>
     rtranclp (pump_step idle_env) (idle_pump\<lparr>pm_stopped := True\<rparr>) s'"
proof -
  have "pump_step idle_env idle_pump (idle_pump\<lparr>pm_stopped := True\<rparr>)"
    by (rule pump_step.stop) (simp add: idle_pump_def pump_start_def)
  then have s: "rtranclp (pump_step idle_env) (pump_start idle_link sample_runner [] [] 0) (idle_pump\<lparr>pm_stopped := True\<rparr>)"
    by (simp add: idle_pump_def r_into_rtranclp)
  have "\<not> conn_closed (lk_conn idle_link)" by (simp add: idle_link_def new_conn_def)
  from pump_shutdown_ends [OF s this, THEN conjunct1] show ?thesis by auto
qed

theorem frames_printable_witness:
  "\<exists>s f. rtranclp (pump_step idle_env) busy_pump s \<and> pm_replies s = [f] \<and> printable (result_text f)"
proof -
  obtain s0 where s0: "rtranclp (pump_step idle_env) busy_pump s0"
      "pm_jobs s0 = {#Started (describe_command ''c1'')#}" "pm_runner s0 = sample_runner" "pm_clock s0 = 0"
      "pm_replies s0 = []" using busy_accepts by (elim exE conjE) (rule that)
  have r: "rn_cfg (pm_runner s0) = sample_config" "rn_seen (pm_runner s0) = []"
    by (simp_all add: s0(3) sample_runner_def)
  obtain s1 j where s1: "pump_step idle_env s0 s1" "pm_jobs s1 = {#Running (describe_command ''c1'') j#}"
      "pm_replies s1 = []" using describe_starts [OF s0(2) r s0(4), of idle_env] s0(5) by auto
  define s2 where "s2 = end_job (quiet_env 0) (describe_command ''c1'') j s1"
  define f where "f = fst (settle (quiet_env 0) (pm_runner s1) (describe_command ''c1'') j)"
  have s2: "pump_step idle_env s1 s2" unfolding s2_def by (rule pump_step.settled) (simp add: s1(2))
  have "pump_step idle_env s2 (reply_once idle_env (describe_command ''c1'') f s2)"
    by (rule pump_step.reply) (simp add: s2_def f_def s1(2))
  with s0(1) s1(1) s2 have star: "rtranclp (pump_step idle_env) busy_pump (reply_once idle_env (describe_command ''c1'') f s2)"
    by (meson rtranclp.rtrancl_into_rtrancl)
  have "pm_replies (reply_once idle_env (describe_command ''c1'') f s2) = [f]" by (simp add: s2_def s1(3))
  with frames_printable [OF star [unfolded busy_pump_def]] star show ?thesis by auto
qed

theorem no_command_replayed_witness:
  "\<exists>l r lg p. establish (world_then describe_events) sample_runner [] = (Inr l, r, lg) \<and>
     pm_runs p = [(0, ''c1'')] \<and>
     pm_jobs (begin_job (quiet_env 1) (describe_command ''c1'') p) =
       add_mset (Replying (describe_command ''c1'') (Deny ''c1'' (reason_token ReasonDuplicateCommandID)))
         (pm_jobs p - {#Started (describe_command ''c1'')#})"
proof -
  let ?e = "\<lparr>pe_conn = good_env, pe_heartbeat = 0\<rparr>"
  obtain l r lg where e: "establish (world_then describe_events) sample_runner [] = (Inr l, r, lg)"
    "lk_input l = describe_events" "\<not> conn_closed (lk_conn l)" "r = sample_runner\<lparr>rn_session := ''s1''\<rparr>"
    using world_then_up [of describe_events "[]"] by (elim exE conjE) (rule that)
  let ?p0 = "pump_start l r lg [] 0"
  have r: "rn_cfg r = sample_config" "rn_seen r = []" by (simp_all add: e(4) sample_runner_def)
  have "max_jobs ?p0 = 4" by (simp add: max_jobs_def pump_start_def r sample_config_def)
  then obtain p1 where p1: "rtranclp (pump_step ?e) ?p0 p1"
    "pm_jobs p1 = {#Started (describe_command ''c1'')#}" "pm_runner p1 = r" "pm_runs p1 = []" "pm_clock p1 = 0"
    using describe_arrives [of ?p0 ?e] e(2,3) by (auto simp: pump_start_def)
  obtain p where p: "pump_step ?e p1 p" "pm_runs p = [(0, ''c1'')]" "pm_clock p = 0"
    using describe_starts [OF p1(2) r [folded p1(3)] p1(5), of ?e] p1(4) by auto
  have reach: "rtranclp (pump_step ?e) ?p0 p" using p1(1) p(1) by (rule rtranclp.rtrancl_into_rtrancl)
  let ?s = "run_start sample_runner [] 0"
  have e': "establish (world_then describe_events) (rs_runner ?s) (rs_log ?s) = (Inr l, r, lg)"
    using e(1) by (simp add: run_start_def)
  have reach': "rtranclp (pump_step ?e) (pump_start l r lg (rs_runs ?s) (rs_clock ?s)) p"
    using reach by (simp add: run_start_def)
  note no = no_command_replayed [OF sample_new rtranclp.rtrancl_refl e' reach', THEN conjunct2, THEN conjunct2,
      rule_format, of 0 "describe_command ''c1''" "quiet_env 1"]
  have "cmd_id (describe_command ''c1'') = ''c1''" "he_clock (quiet_env 1) = 1" "(1::int) \<le> dedupeWindow"
    by (simp_all add: describe_command_def quiet_env_def dedupeWindow_def)
  with no p(2,3) e(1) show ?thesis by (intro exI [of _ l] exI [of _ r] exI [of _ lg] exI [of _ p]) simp
qed

theorem backoff_bounds_witness: "backoff (\<lambda>_. 0) 1 \<ge> backoffMin"
  using backoff_bounds [of "\<lambda>_. 0" 1] by simp

text \<open>Two turns in which the dial fails, and the cancellation.\<close>

definition no_dial :: link_env where
  "no_dial = sample_world\<lparr>le_dial := good_dial\<lparr>rand_key := None\<rparr>\<rparr>"

definition half_second :: wait_env where
  "half_second = \<lparr>we_int63n = (\<lambda>_. 0), we_now = \<lparr>at_stamp = ''now'', at_day = ''today''\<rparr>, we_error = (\<lambda>_. ''no''),
     we_duration = (\<lambda>_. ''0.5s'')\<rparr>"

definition no_turn :: turn where
  "no_turn = Failed no_dial (DialError RandFailed) half_second"

lemma no_turn_step:
  assumes "rs_runner s = sample_runner" "\<not> rs_done s"
  shows "\<exists>s'. run_turn no_turn s s' \<and> rs_runner s' = sample_runner \<and> \<not> rs_done s'"
proof -
  have "fst (Dial (good_dial\<lparr>rand_key := None\<rparr>) (dial_options_of sample_runner)) = Inl RandFailed"
    by (simp add: Dial_def good_dial_def dial_options_of_def sample_runner_def sample_config_def
        wss_url_def dial_roots_def Let_def)
  then have "establish no_dial (rs_runner s) (rs_log s) = (Inl (DialError RandFailed), sample_runner, rs_log s)"
    by (simp add: establish_def no_dial_def sample_world_def assms(1))
  from run_turn.down [OF assms(2) this, of half_second] show ?thesis
    by (intro exI [of _ "schedule half_second False (Some (DialError RandFailed)) (s\<lparr>rs_runner := sample_runner, rs_log := rs_log s\<rparr>)"])
      (simp add: no_turn_def assms(2))
qed

theorem reconnect_schedule_witness:
  "\<exists>s. run_turns [no_turn, no_turn, Ended] (run_start sample_runner [] 0) s \<and>
     reconnects (rs_log s) = scheduled 1 no_turn @ scheduled 2 no_turn"
proof -
  let ?s = "run_start sample_runner [] 0"
  obtain s1 where s1: "run_turn no_turn ?s s1" "rs_runner s1 = sample_runner" "\<not> rs_done s1"
    using no_turn_step [of ?s] by (auto simp: run_start_def)
  obtain s2 where s2: "run_turn no_turn s1 s2" "\<not> rs_done s2" using no_turn_step [OF s1(2,3)] by auto
  have s3: "run_turn Ended s2 (s2\<lparr>rs_done := True\<rparr>)" by (rule run_turn.quit [OF s2(2)])
  have turns: "run_turns ((([] @ [no_turn]) @ [no_turn]) @ [Ended]) ?s (s2\<lparr>rs_done := True\<rparr>)"
    by (intro run_turns.more [OF _ s3] run_turns.more [OF _ s2(1)] run_turns.more [OF _ s1(1)] run_turns.none)
  then show ?thesis using reconnect_schedule [OF turns]
    by (intro exI [of _ "s2\<lparr>rs_done := True\<rparr>"])
      (simp add: numeral_2_eq_2 attempts_def is_failed_def no_turn_def scheduled_def reconnects_def upt_rec)
qed

end
