(* ===== verification/Daemon.thy ===== *)
theory Daemon
  imports Run_Loop
begin

text \<open>
  \<open>cmd/butterstack-connector/main.go\<close>: the flags, the start-up sequence, the shutdown
  line and the printed vocabulary. Parameters: what the flags parsed to, the user id,
  whether the log directory could be
  made, and the instant of each log line.
\<close>

subsection \<open>Lines\<close>

fun split_loop :: "string \<Rightarrow> string \<Rightarrow> string list" where
  "split_loop cur [] = (if cur = [] then [] else [cur])"
| "split_loop cur (c # cs) = (if c = CHR 0x0A then cur # split_loop [] cs else split_loop (cur @ [c]) cs)"

definition splitLines :: "string \<Rightarrow> string list" where
  "splitLines s = split_loop [] s"

subsection \<open>Start-up\<close>

record main_env =
  me_load :: load_env
  me_teamcity :: tc_world
  me_mkdir_ok :: bool
  me_now :: "nat \<Rightarrow> instant"
  me_euid :: nat

datatype start_error = StartSelfcheck selfcheck_error | StartConfig config_error | StartAudit | StartRunner new_error

definition event_entry :: "string \<Rightarrow> string \<Rightarrow> entry" where
  "event_entry ev message = (zero_entry ev)\<lparr>e_message := message\<rparr>"

definition startup_events :: "string \<Rightarrow> nat \<Rightarrow> config \<Rightarrow> entry list" where
  "startup_events version euid cfg =
     event_entry ''startup'' (''butterstack-connector '' @ version @ '' protocol v'' @ Version) #
     map (event_entry ''config'') (splitLines (Redacted cfg)) @
     (if euid = 0 then
        [event_entry ''warning'' ''running as root; the install doc asks for a dedicated non-root user'']
      else [])"

text \<open>\<open>run\<close> up to the call of \<open>Run\<close>: the runner or the error, and what was logged.\<close>

definition start_daemon :: "main_env \<Rightarrow> string \<Rightarrow> string \<Rightarrow> (start_error + runner) \<times> audit_log" where
  "start_daemon w version path =
     (case Selfcheck of
        Some e \<Rightarrow> (Inl (StartSelfcheck e), [])
      | None \<Rightarrow>
          (case Load (me_load w) path of
             Inl e \<Rightarrow> (Inl (StartConfig e), [])
           | Inr cfg \<Rightarrow>
               (case new_logger (log_dir cfg) (me_mkdir_ok w) True of
                  None \<Rightarrow> (Inl StartAudit, [])
                | Some _ \<Rightarrow>
                    let lg = map (\<lambda>(i, e). (me_now w i, e)) (enumerate 0 (startup_events version (me_euid w) cfg))
                    in (case New (me_teamcity w) cfg version of
                          Inl e \<Rightarrow> (Inl (StartRunner e), lg)
                        | Inr r \<Rightarrow> (Inr r, lg)))))"

text \<open>What \<open>run\<close> logs once \<open>Run\<close> has returned.\<close>

definition stop_daemon :: "instant \<Rightarrow> run_state \<Rightarrow> audit_log" where
  "stop_daemon t s = rs_log s @ [(t, event_entry ''shutdown'' ''signal received; socket closed and audit log flushed'')]"

subsection \<open>The printed vocabulary\<close>

definition class_text :: "vclass \<Rightarrow> string" where
  "class_text c =
     (case c of ClassMetadata \<Rightarrow> ''M'' | ClassPaths \<Rightarrow> ''P'' | ClassContent \<Rightarrow> ''C'' | ClassMutation \<Rightarrow> ''X''
      | ClassOther s \<Rightarrow> s)"

definition kind_text :: "kind \<Rightarrow> string" where
  "kind_text k =
     (case k of KindInt \<Rightarrow> ''int'' | KindBool \<Rightarrow> ''bool'' | KindString \<Rightarrow> ''string''
      | KindDepotPath \<Rightarrow> ''depot_path'' | KindOther s \<Rightarrow> s)"

definition scope_text :: "scope \<Rightarrow> string" where
  "scope_text s =
     (case s of ScopeNone \<Rightarrow> [] | ScopeDepot \<Rightarrow> ''depot_scope'' | ScopeAllowedBuildTys \<Rightarrow> ''allowed_build_types''
      | ScopeRepoAllowlist \<Rightarrow> ''repo_allowlist'' | ScopeOther t \<Rightarrow> t)"

text \<open>\<open>%-26s\<close> of an ASCII string.\<close>

definition pad_right :: "nat \<Rightarrow> string \<Rightarrow> string" where
  "pad_right n s = s @ replicate (n - length s) CHR '' ''"

definition verb_line :: "verb \<Rightarrow> string" where
  "verb_line v = pad_right 26 (verb_name v) @ '' class='' @ class_text (verb_class v) @ '' '' @
     (if compiled v then ''compiled'' else ''RESERVED (denied)'')"

definition arg_line :: "arg \<Rightarrow> string" where
  "arg_line a = ''    '' @ pad_right 16 (arg_name a) @ '' '' @ kind_text (arg_kind a) @
     (if required a then '' required'' else []) @
     (if scope_text (arg_scope a) \<noteq> [] then '' scope='' @ scope_text (arg_scope a) else [])"

definition newline :: string where "newline = [CHR 0x0A]"

definition printVocabulary :: "string \<Rightarrow> string" where
  "printVocabulary version =
     ''butterstack-connector '' @ version @ '', protocol v'' @ Version @ newline @ newline @
     concat (map (\<lambda>v. verb_line v @ newline @ concat (map (\<lambda>a. arg_line a @ newline) (verb_args v))) Vocabulary) @
     newline @ ''No verb accepts a host, port, URL, or shell string. There is no sys.exec.'' @ newline"

definition print_version :: "string \<Rightarrow> string" where
  "print_version version = ''butterstack-connector '' @ version @ '' (protocol v'' @ Version @ '')'' @ newline"

text \<open>The flags: what is printed, or the configuration file to run with.\<close>

definition main_action :: "string \<Rightarrow> bool \<Rightarrow> bool \<Rightarrow> string \<Rightarrow> string + string" where
  "main_action version showVer showVocab cfgPath =
     (if showVer then Inl (print_version version)
      else if showVocab then Inl (printVocabulary version)
      else Inr cfgPath)"

subsection \<open>Facts\<close>

lemma split_loop_newline:
  "CHR 0x0A \<notin> set l \<Longrightarrow> split_loop cur (l @ CHR 0x0A # s) = (cur @ l) # split_loop [] s"
  by (induction l arbitrary: cur) auto

lemma split_loop_plain:
  "CHR 0x0A \<notin> set l \<Longrightarrow> split_loop cur l = (if cur @ l = [] then [] else [cur @ l])"
  by (induction l arbitrary: cur) auto

lemma splitLines_append:
  "CHR 0x0A \<notin> set l \<Longrightarrow> splitLines (l @ CHR 0x0A # s) = l # splitLines s"
  by (simp add: splitLines_def split_loop_newline)

lemma splitLines_lines:
  "list_all (\<lambda>l. CHR 0x0A \<notin> set l) ls \<Longrightarrow>
     splitLines (concat (map (\<lambda>l. l @ [CHR 0x0A]) ls) @ s) = ls @ splitLines s"
  by (induction ls) (simp_all add: splitLines_append)

lemma split_loop_no_newline: "CHR 0x0A \<notin> set cur \<Longrightarrow> l \<in> set (split_loop cur s) \<Longrightarrow> CHR 0x0A \<notin> set l"
  by (induction cur s rule: split_loop.induct) (auto split: if_splits)

lemma split_loop_joins:
  "concat (map (\<lambda>l. l @ [CHR 0x0A]) (split_loop cur s)) =
     (if cur @ s = [] \<or> (s \<noteq> [] \<and> last s = CHR 0x0A) then cur @ s else cur @ s @ [CHR 0x0A])"
  by (induction cur s rule: split_loop.induct) auto

end
