(* ===== verification/Daemon_Properties.thy ===== *)
theory Daemon_Properties
  imports Daemon Run_Properties
begin

text \<open>
  The whole program: what the start-up writes and checks, what holds of every session
  it then runs, and what it prints about itself.
\<close>

subsection \<open>Lines\<close>

lemma split_loop_Split:
  "CHR 0x0A \<notin> set cur \<Longrightarrow> split_loop cur s =
     (let xs = Split (cur @ s) CHR 0x0A in if last xs = [] then butlast xs else xs)"
  by (induction cur s rule: split_loop.induct) (auto simp: Split_notin Split_append Let_def)

text \<open>\<open>splitLines\<close> is the splitting at newlines without the empty last piece: joined
  again with a newline after each line the text is back, with a final newline added
  when it had none, and no line holds a newline.\<close>

theorem splitLines_joins:
  "concat (map (\<lambda>l. l @ [CHR 0x0A]) (splitLines s)) =
     (if s = [] \<or> last s = CHR 0x0A then s else s @ [CHR 0x0A]) \<and>
   list_all (\<lambda>l. CHR 0x0A \<notin> set l) (splitLines s) \<and>
   splitLines s = (if last (Split s CHR 0x0A) = [] then butlast (Split s CHR 0x0A) else Split s CHR 0x0A)"
  using split_loop_joins [of "[]" s] split_loop_no_newline [of "[]" _ s] split_loop_Split [of "[]" s]
  by (auto simp: splitLines_def Let_def list_all_iff)

subsection \<open>Start-up\<close>

text \<open>C22. What the start-up writes to its log does not depend on a secret: for two
  configurations that differ only in the secret half of the token, the ticket, the
  TeamCity token or the files these are read from, the lines are the same.\<close>

theorem startup_log_hides_secrets:
  assumes "CHR ''_'' \<notin> set i" "CHR ''_'' \<notin> set s" "CHR ''_'' \<notin> set s'"
  shows "startup_events version euid (c\<lparr>token := ''bsc_'' @ i @ CHR ''_'' # s\<rparr>) =
    startup_events version euid (c\<lparr>token := ''bsc_'' @ i @ CHR ''_'' # s', token_file := tf,
      perforce := (perforce c)\<lparr>p4_ticket := k, p4_ticket_file := kf\<rparr>,
      teamcity := (teamcity c)\<lparr>tc_token := u, tc_token_file := uf\<rparr>\<rparr>)"
  unfolding startup_events_def
    redacted_hides_secrets [OF assms, where c = c and tf = tf and k = k and kf = kf and u = u and uf = uf]
  by (rule refl)

lemma serves_keeps_config:
  assumes "serves w s p x"
  shows "rn_cfg (pm_runner p) = rn_cfg (rs_runner s)"
proof -
  from assms obtain l r lg where "establish w (rs_runner s) (rs_log s) = (Inr l, r, lg)"
    "rtranclp (pump_step (pump_env_of w l)) (pump_start l r lg (rs_runs s) (rs_clock s)) p"
    by (auto simp: serves_def)
  then show ?thesis using pump_semaphore establish_keeps(1) by metis
qed

lemma run_keeps_config: "run_step s s' \<Longrightarrow> rn_cfg (rs_runner s') = rn_cfg (rs_runner s)"
  unfolding run_step_def
  by (elim exE run_turnE) (auto dest: establish_keeps(1) serves_keeps_config)

text \<open>C4. The whole program: whatever is on disk and whatever the broker sends, a daemon
  that starts passed the vocabulary check and runs a configuration that loaded; in
  every session it ever has, under every schedule, at most 32 commands (and at most
  \<open>max_concurrent\<close>) are in progress, and the queue depth a heartbeat reports is in that
  range.\<close>

theorem daemon_bounded:
  assumes "start_daemon w version path = (Inr r0, lg0)" "rtranclp run_step (run_start r0 lg0 t0) s"
    and "establish v (rs_runner s) (rs_log s) = (Inr l, r, lg)"
    and "rtranclp (pump_step e) (pump_start l r lg (rs_runs s) (rs_clock s)) p"
  shows "Selfcheck = None \<and> Load (me_load w) path = Inr (rn_cfg (pm_runner p)) \<and>
    int (size (pm_jobs p)) \<le> max_concurrent (rn_cfg (pm_runner p)) \<and> size (pm_jobs p) \<le> 32 \<and>
    0 \<le> hb_queue_depth (heartbeat_of ts p) \<and> hb_queue_depth (heartbeat_of ts p) \<le> 32"
proof -
  from assms(1) have st: "Selfcheck = None" "Load (me_load w) path = Inr (rn_cfg r0)"
    by (auto simp: start_daemon_def Let_def New_InrD split: option.splits sum.splits)
  have "rn_cfg (rs_runner s) = rn_cfg r0" using assms(2)
    by (induction rule: rtranclp_induct) (simp_all add: run_start_def run_keeps_config)
  then have cfg: "rn_cfg r = rn_cfg r0" using establish_keeps(1) [OF assms(3)] by simp
  from st(2) obtain c1 where "Validate (env_url (me_load w)) c1 = Inr (rn_cfg r0)" by (rule Load_InrD)
  note v = Validate_InrD [OF this]
  then have "max_concurrent (rn_cfg r0) = max_concurrent c1"
    using validate_perforce_InrD [of c1 "rn_cfg r0"] by (metis config.select_convs(7) config.surjective config.update_convs(8))
  then have "1 \<le> max_concurrent (rn_cfg r0) \<and> max_concurrent (rn_cfg r0) \<le> 32" using v by simp
  then show ?thesis using pump_semaphore [OF assms(4), of ts] st cfg by auto
qed

subsection \<open>The printed vocabulary\<close>

definition vocabulary_lines :: "string list" where
  "vocabulary_lines = concat (map (\<lambda>v. verb_line v # map arg_line (verb_args v)) Vocabulary)"

lemma printed_lines:
  "printVocabulary version = concat (map (\<lambda>l. l @ [CHR 0x0A])
     ((''butterstack-connector '' @ version @ '', protocol v'' @ Version) # [] # vocabulary_lines @
      [[], ''No verb accepts a host, port, URL, or shell string. There is no sys.exec.'']))"
proof -
  have "concat (map (\<lambda>l. l @ [CHR 0x0A]) (concat (map (\<lambda>v. verb_line v # map arg_line (verb_args v)) vs))) =
      concat (map (\<lambda>v. verb_line v @ newline @ concat (map (\<lambda>a. arg_line a @ newline) (verb_args v))) vs)" for vs
    by (induction vs) (simp_all add: newline_def comp_def)
  then show ?thesis by (simp add: printVocabulary_def vocabulary_lines_def newline_def)
qed

lemma printed_split:
  "splitLines (printVocabulary ''0.0.0-spike'') =
     [''butterstack-connector 0.0.0-spike, protocol v0'', []] @ vocabulary_lines @
      [[], ''No verb accepts a host, port, URL, or shell string. There is no sys.exec.'']"
proof -
  have "list_all (\<lambda>l. CHR 0x0A \<notin> set l) vocabulary_lines" by code_simp
  then have "list_all (\<lambda>l. CHR 0x0A \<notin> set l)
     ((''butterstack-connector '' @ ''0.0.0-spike'' @ '', protocol v'' @ Version) # [] # vocabulary_lines @
      [[], ''No verb accepts a host, port, URL, or shell string. There is no sys.exec.''])"
    by (simp add: Version_def)
  from splitLines_lines [OF this, of "[]"] show ?thesis
    unfolding printed_lines by (simp add: splitLines_def Version_def)
qed

text \<open>What the program prints about itself is the allowlist it enforces: of the lines
  \<open>-print-vocabulary\<close> prints, those that end in \<open>compiled\<close> start with the names of the
  compiled verbs, in table order, and those that end in \<open>RESERVED (denied)\<close> with the
  others'.\<close>

theorem printed_allowlist:
  "map (takeWhile (\<lambda>c. c \<noteq> CHR '' '')) (filter (\<lambda>l. HasSuffix l '' compiled'') (splitLines (printVocabulary ''0.0.0-spike''))) =
     map verb_name (filter compiled Vocabulary) \<and>
   map (takeWhile (\<lambda>c. c \<noteq> CHR '' '')) (filter (\<lambda>l. HasSuffix l ''RESERVED (denied)'') (splitLines (printVocabulary ''0.0.0-spike''))) =
     map verb_name (filter (\<lambda>v. \<not> compiled v) Vocabulary)"
  unfolding printed_split by code_simp

subsection \<open>Witnesses\<close>

theorem startup_log_hides_secrets_witness:
  "startup_events ''1'' 0 (sample_config\<lparr>token := ''bsc_acme_AAAA''\<rparr>) =
   startup_events ''1'' 0 (sample_config\<lparr>token := ''bsc_acme_BBBB'', token_file := [],
      perforce := (perforce sample_config)\<lparr>p4_ticket := ''other'', p4_ticket_file := []\<rparr>,
      teamcity := (teamcity sample_config)\<lparr>tc_token := ''t'', tc_token_file := []\<rparr>\<rparr>)"
  using startup_log_hides_secrets [where i = "''acme''" and s = "''AAAA''" and s' = "''BBBB''" and
      version = "''1''" and euid = 0 and c = sample_config and tf = "[]" and k = "''other''" and kf = "[]" and
      u = "''t''" and uf = "[]"]
  by simp

definition sample_main :: main_env where
  "sample_main = \<lparr>me_load = sample_env, me_teamcity = quiet_tc, me_mkdir_ok = True,
     me_now = (\<lambda>_. \<lparr>at_stamp = ''now'', at_day = ''today''\<rparr>), me_euid = 1000\<rparr>"

lemma sample_starts: "\<exists>lg. start_daemon sample_main ''1'' ''c.yml'' = (Inr sample_runner, lg)"
proof -
  have "Selfcheck = None" by (simp add: Selfcheck_def Selfcheck_of_None_iff Vocabulary_safe)
  then show ?thesis
    by (simp add: start_daemon_def sample_main_def sample_loads sample_new new_logger_def Let_def)
qed

theorem daemon_bounded_witness:
  "\<exists>lg0 l r lg. start_daemon sample_main ''1'' ''c.yml'' = (Inr sample_runner, lg0) \<and>
     establish sample_world sample_runner lg0 = (Inr l, r, lg) \<and>
     size (pm_jobs (pump_start l r lg [] 0)) \<le> 32"
proof -
  obtain lg0 where st: "start_daemon sample_main ''1'' ''c.yml'' = (Inr sample_runner, lg0)"
    using sample_starts by blast
  obtain l r lg where e: "establish sample_world sample_runner lg0 = (Inr l, r, lg)" using sample_up by blast
  then have e': "establish sample_world (rs_runner (run_start sample_runner lg0 0))
      (rs_log (run_start sample_runner lg0 0)) = (Inr l, r, lg)" by (simp add: run_start_def)
  from daemon_bounded [OF st rtranclp.rtrancl_refl e' rtranclp.rtrancl_refl, THEN conjunct2, THEN conjunct2,
      THEN conjunct2, THEN conjunct1] st e
  show ?thesis by (auto simp: run_start_def)
qed

end
