(* ===== verification/Spec2Isabelle.thy ===== *)
theory Spec2Isabelle
  imports Vocab_Properties Argument_Properties Scope_Properties Config_Properties Protocol_Properties
    Audit_Properties Ws_Properties Perforce_Properties Team_City_Properties Session_Properties
    Run_Properties Daemon_Properties
begin

text \<open>
  A verification development for the ButterStack connector, the daemon a studio runs
  inside its network: it dials out to a broker over a websocket, receives commands from
  a fixed vocabulary, and answers them from a Perforce server and a TeamCity server.

  \<^bold>\<open>The program and its theories.\<close>
  \<^item> The Go standard library, as far as the source uses it: \<open>strings\<close> and UTF-8
    (\<open>Go_Strings\<close>), \<open>strconv\<close> (\<open>Go_Strconv\<close>), the anchored regular expressions of the
    tables (\<open>Go_Regexp\<close>), and \<open>encoding/json\<close>: the value syntax and a parser with fuel,
    the length of the text, proved enough (\<open>Go_Json\<close>), struct, map and stream decoding
    (\<open>Go_Json_Decode\<close>), encoding (\<open>Go_Json_Encode\<close>) and their round trips
    (\<open>Go_Json_Roundtrip\<close>, \<open>Go_Json_Nested\<close>). \<open>Prelude\<close> has the shared collections,
    results as sums, and \<open>int64\<close> with its wrap-around.
  \<^item> \<open>internal/vocab/vocab.go\<close>: \<open>Vocab\<close> (the table, lookup, \<open>Selfcheck\<close>), \<open>Depot_Scope\<close>
    (path syntax and scopes), \<open>Resolve\<close> (argument validation and the decision), \<open>Path_Scope\<close>
    (what the path rule confines, the interface \<open>directory_scoped\<close>, and the two laws on
    Perforce's matching, \<open>literal_matching\<close> and \<open>dots_matching\<close>); properties in
    \<open>Vocab_Properties\<close>, \<open>Argument_Properties\<close> and \<open>Scope_Properties\<close>.
  \<^item> \<open>internal/config/config.go\<close>: \<open>Config\<close>, which interprets \<open>directory_scoped\<close>;
    \<open>Config_Properties\<close>.
  \<^item> \<open>internal/protocol/protocol.go\<close>: \<open>Protocol\<close>, \<open>Protocol_Properties\<close>.
  \<^item> \<open>internal/audit/audit.go\<close>: \<open>Audit_Log\<close> (interface \<open>line_sink\<close>, interpreted on what
    the mirror is handed and on a day's file; what \<open>Write\<close> lets through of a line is a
    parameter on both sides), \<open>Audit_Properties\<close>.
  \<^item> \<open>internal/wsclient/wsclient.go\<close>: \<open>Ws_Frame\<close> (octets are 8-bit words; interface
    \<open>frame_codec\<close>, interpreted on \<open>readFrame\<close>), \<open>Ws_Client\<close> (connection, reading,
    dialling), \<open>Ws_Properties\<close>.
  \<^item> \<open>internal/tools\<close>: \<open>Executor\<close> (\<open>tools.go\<close>, interface \<open>tool_executor\<close>), \<open>Perforce\<close>
    (\<open>perforce.go\<close>, interface \<open>bounded_writer\<close>), \<open>Team_City\<close> (\<open>teamcity.go\<close>, whose client
    settings, redirects, TLS and time limit, are part of what an answer depends on), with
    their properties; both interpret \<open>tool_executor\<close>. A tool call returns its result and
    the list of what it did outside: the processes it ran, the requests it sent.
  \<^item> \<open>internal/session/session.go\<close>: \<open>Dedupe\<close> (\<open>claim\<close>, interface \<open>duplicate_check\<close>),
    \<open>Session\<close> (\<open>New\<close>, \<open>handle\<close>, \<open>execute\<close>), \<open>Reconnect\<close> (\<open>runOnce\<close> up to the pump,
    \<open>classify\<close>, \<open>backoff\<close>), \<open>Pump\<close> (the goroutines of one session as a step relation) and
    \<open>Run_Loop\<close> (\<open>Run\<close>, as a relation labelled with its turns); properties in \<open>Session_Properties\<close>, \<open>Pump_Properties\<close> (the
    inductive invariants) and \<open>Run_Properties\<close>.
  \<^item> \<open>cmd/butterstack-connector/main.go\<close>: \<open>Daemon\<close>, \<open>Daemon_Properties\<close>.

  \<^bold>\<open>How they interact.\<close> \<open>start_daemon\<close> checks the vocabulary, loads the configuration, logs
  it and builds the runner; \<open>run_turn\<close> establishes a link, runs \<open>pump_step\<close>s until the
  session has returned, and schedules the next attempt (\<open>run_step\<close> forgets the label of
  the turn). The pump's read loop decodes
  frames to commands; each command's goroutine runs \<open>handle\<close> in two steps, \<open>admit\<close> (the
  claim and \<open>Resolve\<close>) and \<open>settle\<close> (the one tool call), then writes one result. The state
  the goroutines share (socket, table of ids, log, error channel, semaphore) is one record.

  \<^bold>\<open>What is shown.\<close> The decision: what \<open>Resolve\<close> accepts and why it refuses, that nothing
  passes the schema, and what an accepted path confines: every file it matches begins
  with the root of one configured scope, and lies under the scope's directory unless the
  path is the bare root or the root with a wildcard glued to it; the second exception is
  real, and proved to reach sibling directories. The edges: what reaches a process, an
  HTTP request, the broker and the log, including the end-to-end statement from the
  configuration file to the one process a command runs. The wire: round trips of frames
  and JSON, printable frames, bounds on what is read. The session: semaphore, one answer
  and one audit line per command, no command executed twice within the window across
  interleavings and reconnects, shutdown in boundedly many steps, and the log of
  reconnects in closed form over the turns of the loop.
  The duplicate table is a refinement of the full history of acceptances.

  \<^bold>\<open>Fuel and bounds.\<close> Only the JSON parser takes fuel: the length of its input, which its
  theory proves to be enough; every other recursion is structural or has a measure (the
  unread input for \<open>read_loop\<close>, the keys not yet looked at for \<open>describe_loop\<close>).

  \<^bold>\<open>Parameters.\<close> Code that is not in the repository is an argument of the definitions that
  use it: the YAML decoder, \<open>url.Parse\<close> and \<open>URL.String\<close>, files and their modes, the clock,
  SHA-256, SHA-1 and base64, the TLS dial and the HTTP response parser, the HTTP client,
  the p4 process, \<open>ParseFloat\<close>, the random source, and the texts \<open>Sprintf\<close> gives errors and
  durations, which only reach the local log. Hypotheses on them are documented behaviour:
  \<open>Int63n(n)\<close> is in \<open>[0, n)\<close>; a Perforce path matches only what starts with the text before
  its first special character (as a case-sensitive server compares it), and three dots at
  the end of a path match any text.

  \<^bold>\<open>Not modelled.\<close> Documentation strings of the schema; signal delivery (the step that sets
  \<open>pm_stopped\<close> or ends the loop); a tool call that never returns (each has a time limit)
  and the inner steps of \<open>Close\<close>, which is one step; the interleaving of frame writes inside one
  \<open>ReadMessage\<close> with other goroutines' writes, which is one step; the order in which two
  goroutines read the clock before taking the lock in \<open>claim\<close> is taken to be the order of
  the lock; the elements of a repeated \<open>revisions\<close> array are decoded afresh; the Go tests.
\<close>

end
